theory Spec2Isabelle
  imports Complex_Main "HOL-Library.Stream"
begin

section \<open>Errors\<close>

text \<open>
  The error values the package handles. \<open>EOF\<close> is \<open>io.EOF\<close>, which \<open>Get\<close> compares
  by identity; \<open>ReadFault\<close> is any other fault of a row source; \<open>ErrSyntax\<close> and
  \<open>ErrRange\<close> are the two failures of the \<open>strconv\<close> parsers; \<open>CannotConvert\<close> is
  \<open>errors.New("cannot convert this type ")\<close> of \<open>NewReadIter\<close> and \<open>NotAValue\<close> is
  \<open>errors.New("Not a Value object")\<close> of \<open>Get\<close>.
\<close>

datatype error = EOF | ReadFault string | ErrSyntax | ErrRange | CannotConvert | NotAValue

section \<open>The parsers of strconv, as the package calls them\<close>

text \<open>
  \<open>strconv.ParseUint(s, 10, 0)\<close> and \<open>strconv.ParseInt(s, 10, 0)\<close> of the Go library,
  at base 10 and bit size 0, which stands for the size of \<open>int\<close>: 64 bits here.
  Strings are byte strings. The parsers return a value and an error together; the value
  that comes with an error is 0 for a syntax error and the nearest limit for a range
  error. Unsigned 64-bit arithmetic is \<open>nat\<close> with the wrap-around written out.
\<close>

definition IntSize :: nat where
  "IntSize = 64"

definition maxUint64 :: nat where
  "maxUint64 = 2 ^ 64 - 1"

definition lower :: "nat \<Rightarrow> nat" where
  \<comment> \<open>\<open>c | ('x' - 'X')\<close>: sets bit 5 of a byte\<close>
  "lower c = (if (c div 32) mod 2 = 0 then c + 32 else c)"

definition digit_of :: "char \<Rightarrow> nat option" where
  \<comment> \<open>the digit switch of the loop of \<open>ParseUint\<close>; \<open>None\<close> is its default case\<close>
  "digit_of ch =
     (let c = (of_char ch :: nat) in
      if 48 \<le> c \<and> c \<le> 57 then Some (c - 48)
      else if 97 \<le> lower c \<and> lower c \<le> 122 then Some (lower c - 97 + 10)
      else None)"

fun ParseUint_loop :: "nat \<Rightarrow> nat \<Rightarrow> nat \<Rightarrow> string \<Rightarrow> nat \<times> error option" where
  "ParseUint_loop base maxVal n [] = (n, None)"
| "ParseUint_loop base maxVal n (ch # s) =
     (case digit_of ch of
        None \<Rightarrow> (0, Some ErrSyntax)
      | Some d \<Rightarrow>
          if d \<ge> base then (0, Some ErrSyntax)
          else if n \<ge> maxUint64 div base + 1 then (maxVal, Some ErrRange)
          else
            let n' = (n * base) mod 2 ^ 64;
                n1 = (n' + d) mod 2 ^ 64
            in if n1 < n' \<or> n1 > maxVal then (maxVal, Some ErrRange)
               else ParseUint_loop base maxVal n1 s)"

definition ParseUint :: "string \<Rightarrow> nat \<times> error option" where
  "ParseUint s =
     (if s = [] then (0, Some ErrSyntax)
      else ParseUint_loop 10 (2 ^ IntSize - 1) 0 s)"

definition wrap_int :: "nat \<Rightarrow> int \<Rightarrow> int" where
  \<comment> \<open>the value of an integer kept in \<open>w\<close> bits, two's complement\<close>
  "wrap_int w x = (x + 2 ^ (w - 1)) mod 2 ^ w - 2 ^ (w - 1)"

definition ParseInt :: "string \<Rightarrow> int \<times> error option" where
  "ParseInt s0 =
     (if s0 = [] then (0, Some ErrSyntax)
      else
        let neg = (hd s0 = CHR ''-'');
            s = (if hd s0 = CHR ''+'' \<or> hd s0 = CHR ''-'' then tl s0 else s0);
            (un, err) = ParseUint s
        in if err \<noteq> None \<and> err \<noteq> Some ErrRange then (0, err)
           else
             let cutoff = (2 :: nat) ^ (IntSize - 1)
             in if \<not> neg \<and> un \<ge> cutoff then (int cutoff - 1, Some ErrRange)
                else if neg \<and> un > cutoff then (- int cutoff, Some ErrRange)
                else
                  let n = wrap_int 64 (int un)
                  in (if neg then wrap_int 64 (- n) else n, None))"

section \<open>StrToInt64\<close>

definition StrToInt64 :: "string \<Rightarrow> int" where
  \<comment> \<open>the error of \<open>ParseInt\<close> meets an empty \<open>if\<close> body and is dropped\<close>
  "StrToInt64 s = (let (i, err) = ParseInt s in i)"

section \<open>The data of the package\<close>

text \<open>
  \<open>Reader\<close> is an interface with one method, \<open>Read() ([]string, error)\<close>. A row source
  is modelled by the results its successive \<open>Read\<close> calls give: a stream of pairs of a
  row and an optional error. Reading takes the head and leaves the tail.
\<close>

type_synonym read_result = "string list \<times> error option"

type_synonym Reader = "read_result stream"

text \<open>The kinds of \<open>reflect.Kind\<close>, in the order of the library.\<close>

datatype Kind =
    reflect_Invalid | reflect_Bool
  | reflect_Int | reflect_Int8 | reflect_Int16 | reflect_Int32 | reflect_Int64
  | reflect_Uint | reflect_Uint8 | reflect_Uint16 | reflect_Uint32 | reflect_Uint64
  | reflect_Uintptr | reflect_Float32 | reflect_Float64
  | reflect_Complex64 | reflect_Complex128
  | reflect_Array | reflect_Chan | reflect_Func | reflect_Interface | reflect_Map
  | reflect_Pointer | reflect_Slice | reflect_String | reflect_Struct
  | reflect_UnsafePointer

text \<open>
  \<open>NewReadIter\<close> is given a pointer to a struct. What it observes of one field of the
  struct through reflection: the declared name, the result of \<open>f.Tag.Get("field")\<close>
  (empty when the field has no such tag), the kind of its type, whether the field is
  exported (\<open>f.PkgPath\<close> is empty), whether \<open>val.Addr().Interface()\<close> is a \<open>Value\<close>, and
  whether \<open>val.Interface()\<close> is a \<open>Value\<close>. Reflection refuses to hand out the value of
  a field that is not exported: \<open>Interface\<close> panics on it, so the last two are observed of
  exported fields only.
\<close>

record StructField =
  Name :: string
  Tag_field :: string
  Type_Kind :: Kind
  IsExported :: bool
  addr_is_Value :: bool
  val_is_Value :: bool

text \<open>
  The constants \<open>none_k\<close> ... \<open>value_k\<close>; \<open>none_k\<close> is 0, the value a fresh \<open>[]int\<close>
  holds.
\<close>

datatype kind = none_k | string_k | int_k | float_k | uint_k | value_k

text \<open>
  A \<open>reflect.Value\<close> kept in \<open>fields\<close> (here \<open>fields'\<close>): the zero \<open>Value\<close> a fresh slice holds, the
  field \<open>i\<close> of the target (with the kind of its type), or the pointer to the field \<open>i\<close>.
\<close>

datatype handle = Zero_Value | Field_Value nat Kind | Field_Addr nat

record ReadIter =
  Reader :: Reader
  Headers :: "string list"
  Error :: "error option"
  Line :: int
  Column :: nat
  fields' :: "handle list"
  kinds :: "kind list"
  tags :: "nat list"

text \<open>
  The target struct is the list of the current values of its fields. \<open>'f\<close> is the type
  of 64-bit floating-point values, \<open>'c\<close> the type of the states of the objects that
  implement \<open>Value\<close>.
\<close>

datatype ('f, 'c) field_value =
    String_val string | Int_val int | Uint_val nat | Float_val 'f | Custom_val 'c | Other_val

text \<open>
  What \<open>Get\<close> takes from outside the package: the conversion of
  \<open>strconv.ParseFloat(s, 0)\<close> on a non-empty string, the narrowing of a 64-bit float to
  32 bits, and the \<open>Set\<close> method of the objects that implement \<open>Value\<close>, which returns
  its boolean result and the new state of the object.
\<close>

record ('f, 'c) env =
  atof :: "string \<Rightarrow> 'f \<times> error option"
  float32 :: "'f \<Rightarrow> 'f"
  Value_Set :: "string \<Rightarrow> 'c \<Rightarrow> bool \<times> 'c"

definition ParseFloat :: "('f::zero, 'c) env \<Rightarrow> string \<Rightarrow> 'f \<times> error option" where
  \<comment> \<open>the library finds no number in the empty string: value 0 and a syntax error\<close>
  "ParseFloat E s = (if s = [] then (0, Some ErrSyntax) else atof E s)"

datatype panic = Index_out_of_range | Reflect_panic

datatype status = Returned bool | Panicked panic

text \<open>A call that returns its results, or panics.\<close>

datatype 'a outcome = Returns 'a | Panics panic

section \<open>NewReadIter\<close>

definition lookup_tag :: "StructField \<Rightarrow> string" where
  "lookup_tag f =
     (let tag = Tag_field f in
      if length tag = 0 then
        (let tag = Name f in
         if CHR ''_'' \<in> set tag
         then map (\<lambda>c. if c = CHR ''_'' then CHR '' '' else c) tag
         else tag)
      else tag)"

text \<open>
  The search of the headers: \<open>find_header eqf hs tag k\<close> looks through \<open>hs\<close>, whose
  first element has index \<open>k\<close>, and stops at the first match; \<open>None\<close> is \<open>itag == -1\<close>.
  \<open>eqf\<close> is \<open>strings.EqualFold\<close> of the library.
\<close>

fun find_header :: "(string \<Rightarrow> string \<Rightarrow> bool) \<Rightarrow> string list \<Rightarrow> string \<Rightarrow> nat \<Rightarrow> nat option" where
  "find_header eqf [] tag k = None"
| "find_header eqf (h # hs) tag k = (if eqf h tag then Some k else find_header eqf hs tag (Suc k))"

fun switch_Kind :: "Kind \<Rightarrow> kind" where
  "switch_Kind reflect_Int = int_k"
| "switch_Kind reflect_Int16 = int_k"
| "switch_Kind reflect_Int8 = int_k"
| "switch_Kind reflect_Int32 = int_k"
| "switch_Kind reflect_Int64 = int_k"
| "switch_Kind reflect_Uint = uint_k"
| "switch_Kind reflect_Uint16 = uint_k"
| "switch_Kind reflect_Uint8 = uint_k"
| "switch_Kind reflect_Uint32 = uint_k"
| "switch_Kind reflect_Uint64 = uint_k"
| "switch_Kind reflect_Float32 = float_k"
| "switch_Kind reflect_Float64 = float_k"
| "switch_Kind reflect_String = string_k"
| "switch_Kind _ = value_k"

text \<open>
  The classification of a field that a header matches, from \<open>kind := none_k\<close> to the
  end of the \<open>switch\<close>. Its first step, \<open>val.Addr().Interface()\<close>, panics in reflection
  when the field is not exported. Otherwise the result is the error of a type that
  cannot be converted, or the kind and the handle to store.
\<close>

definition classify :: "StructField \<Rightarrow> nat \<Rightarrow> (error + kind \<times> handle) outcome" where
  "classify f i =
     (if \<not> IsExported f then Panics Reflect_panic
      else if addr_is_Value f then Returns (Inr (value_k, Field_Addr i))
      else
        let kind = switch_Kind (Type_Kind f)
        in if kind = value_k \<and> \<not> val_is_Value f then Returns (Inl CannotConvert)
           else Returns (Inr (kind, Field_Value i (Type_Kind f))))"

text \<open>
  The loop over the fields of the struct type: \<open>fs\<close> are the fields from index \<open>i\<close> on.
  A field that no header matches is passed over (\<open>continue\<close>); a field of a type that
  cannot be converted ends the construction with the error; a panic ends it with no
  result. \<open>Returns (Inr this)\<close> is the return of the session with a nil error,
  \<open>Returns (Inl err)\<close> the return of a nil session with the error.
\<close>

fun NewReadIter_loop ::
  "(string \<Rightarrow> string \<Rightarrow> bool) \<Rightarrow> StructField list \<Rightarrow> nat \<Rightarrow> ReadIter \<Rightarrow>
     (error + ReadIter) outcome" where
  "NewReadIter_loop eqf [] i this = Returns (Inr this)"
| "NewReadIter_loop eqf (f # fs) i this =
     (case find_header eqf (Headers this) (lookup_tag f) 0 of
        None \<Rightarrow> NewReadIter_loop eqf fs (Suc i) this
      | Some itag \<Rightarrow>
          (case classify f i of
             Panics p \<Rightarrow> Panics p
           | Returns (Inl err) \<Rightarrow> Returns (Inl err)
           | Returns (Inr (kind, val)) \<Rightarrow>
               NewReadIter_loop eqf fs (Suc i)
                 (this\<lparr>kinds := (kinds this)[i := kind],
                       tags := (tags this)[i := itag],
                       fields' := (fields' this)[i := val]\<rparr>)))"

definition NewReadIter ::
  "(string \<Rightarrow> string \<Rightarrow> bool) \<Rightarrow> Reader \<Rightarrow> StructField list \<Rightarrow>
     (error + ReadIter) outcome" where
  "NewReadIter eqf rdr st =
     (let (hs, err) = shd rdr;
          this = \<lparr>Reader = stl rdr, Headers = hs, Error = None, Line = 1, Column = 0,
                  fields' = [], kinds = [], tags = []\<rparr>
      in case err of
           Some e \<Rightarrow> Returns (Inl e)
         | None \<Rightarrow>
             let nf = length st
             in NewReadIter_loop eqf st 0
                  (this\<lparr>kinds := replicate nf none_k,
                        tags := replicate nf 0,
                        fields' := replicate nf Zero_Value\<rparr>))"

section \<open>Get\<close>

fun int_bits :: "Kind \<Rightarrow> nat option" where
  "int_bits reflect_Int = Some IntSize"
| "int_bits reflect_Int8 = Some 8"
| "int_bits reflect_Int16 = Some 16"
| "int_bits reflect_Int32 = Some 32"
| "int_bits reflect_Int64 = Some 64"
| "int_bits _ = None"

fun uint_bits :: "Kind \<Rightarrow> nat option" where
  "uint_bits reflect_Uint = Some IntSize"
| "uint_bits reflect_Uintptr = Some IntSize"
| "uint_bits reflect_Uint8 = Some 8"
| "uint_bits reflect_Uint16 = Some 16"
| "uint_bits reflect_Uint32 = Some 32"
| "uint_bits reflect_Uint64 = Some 64"
| "uint_bits _ = None"

text \<open>
  The setters of \<open>reflect.Value\<close>. Each panics on a \<open>Value\<close> of another kind (the zero
  \<open>Value\<close> and a pointer among them); the integer setters keep the bits the field has
  room for.
\<close>

fun SetString :: "handle \<Rightarrow> string \<Rightarrow> ('f, 'c) field_value list \<Rightarrow> panic + ('f, 'c) field_value list" where
  "SetString (Field_Value i k) x sv =
     (if k = reflect_String then Inr (sv[i := String_val x]) else Inl Reflect_panic)"
| "SetString _ x sv = Inl Reflect_panic"

fun SetInt :: "handle \<Rightarrow> int \<Rightarrow> ('f, 'c) field_value list \<Rightarrow> panic + ('f, 'c) field_value list" where
  "SetInt (Field_Value i k) x sv =
     (case int_bits k of
        Some w \<Rightarrow> Inr (sv[i := Int_val (wrap_int w x)])
      | None \<Rightarrow> Inl Reflect_panic)"
| "SetInt _ x sv = Inl Reflect_panic"

fun SetUint :: "handle \<Rightarrow> nat \<Rightarrow> ('f, 'c) field_value list \<Rightarrow> panic + ('f, 'c) field_value list" where
  "SetUint (Field_Value i k) x sv =
     (case uint_bits k of
        Some w \<Rightarrow> Inr (sv[i := Uint_val (x mod 2 ^ w)])
      | None \<Rightarrow> Inl Reflect_panic)"
| "SetUint _ x sv = Inl Reflect_panic"

fun SetFloat :: "('f, 'c) env \<Rightarrow> handle \<Rightarrow> 'f \<Rightarrow> ('f, 'c) field_value list \<Rightarrow> panic + ('f, 'c) field_value list" where
  "SetFloat E (Field_Value i k) x sv =
     (if k = reflect_Float32 then Inr (sv[i := Float_val (float32 E x)])
      else if k = reflect_Float64 then Inr (sv[i := Float_val x])
      else Inl Reflect_panic)"
| "SetFloat E _ x sv = Inl Reflect_panic"

text \<open>
  \<open>f.Interface().(Value)\<close> followed by \<open>v.Set(vals)\<close>: the assertion holds when the
  field holds an object that implements \<open>Value\<close>; the result of \<open>Set\<close> is not looked at.
\<close>

definition set_Value ::
  "('f, 'c) env \<Rightarrow> nat \<Rightarrow> string \<Rightarrow> ('f, 'c) field_value list \<Rightarrow>
     panic + error option \<times> ('f, 'c) field_value list" where
  "set_Value E i vals sv =
     (if i < length sv then
        (case sv ! i of
           Custom_val c \<Rightarrow> (let (ok, c') = Value_Set E vals c in Inr (None, sv[i := Custom_val c']))
         | _ \<Rightarrow> Inr (Some NotAValue, sv))
      else Inl Reflect_panic)"

text \<open>
  The \<open>switch\<close> of the loop of \<open>Get\<close> for one entry: the kind, the handle and the text
  of the column give a panic, or the error left in \<open>err\<close> and the target as written.
\<close>

fun convert ::
  "('f::zero, 'c) env \<Rightarrow> kind \<Rightarrow> handle \<Rightarrow> string \<Rightarrow> ('f, 'c) field_value list \<Rightarrow>
     panic + error option \<times> ('f, 'c) field_value list" where
  "convert E string_k f vals sv =
     (case SetString f vals sv of Inl p \<Rightarrow> Inl p | Inr sv' \<Rightarrow> Inr (None, sv'))"
| "convert E int_k f vals sv =
     (let vals = (if vals = [] then ''0'' else vals);
          (ival, err) = ParseInt vals
      in case SetInt f ival sv of Inl p \<Rightarrow> Inl p | Inr sv' \<Rightarrow> Inr (err, sv'))"
| "convert E uint_k f vals sv =
     (let (uval, err) = ParseUint vals
      in case SetUint f uval sv of Inl p \<Rightarrow> Inl p | Inr sv' \<Rightarrow> Inr (err, sv'))"
| "convert E float_k f vals sv =
     (let (fval, err) = ParseFloat E vals
      in case SetFloat E f fval sv of Inl p \<Rightarrow> Inl p | Inr sv' \<Rightarrow> Inr (err, sv'))"
| "convert E value_k f vals sv =
     (case f of
        Zero_Value \<Rightarrow> Inl Reflect_panic
      | Field_Value i k \<Rightarrow> set_Value E i vals sv
      | Field_Addr i \<Rightarrow> set_Value E i vals sv)"
| "convert E none_k f vals sv = Inr (None, sv)"

text \<open>
  The loop \<open>for fi, ci := range this.tags\<close>: \<open>cs\<close> are the entries of \<open>tags\<close> from
  index \<open>fi\<close> on. Indexing a slice out of range panics.
\<close>

fun Get_loop ::
  "('f::zero, 'c) env \<Rightarrow> string list \<Rightarrow> ReadIter \<Rightarrow> nat \<Rightarrow> nat list \<Rightarrow> ('f, 'c) field_value list \<Rightarrow>
     status \<times> ReadIter \<times> ('f, 'c) field_value list" where
  "Get_loop E row this fi [] sv = (Returned True, this, sv)"
| "Get_loop E row this fi (ci # cs) sv =
     (if ci \<ge> length row then (Panicked Index_out_of_range, this, sv)
      else if fi \<ge> length (fields' this) then (Panicked Index_out_of_range, this, sv)
      else if fi \<ge> length (kinds this) then (Panicked Index_out_of_range, this, sv)
      else
        (case convert E (kinds this ! fi) (fields' this ! fi) (row ! ci) sv of
           Inl p \<Rightarrow> (Panicked p, this, sv)
         | Inr (err, sv') \<Rightarrow>
             (case err of
                Some e \<Rightarrow> (Returned False, this\<lparr>Column := ci + 1, Error := Some e\<rparr>, sv')
              | None \<Rightarrow> Get_loop E row this (Suc fi) cs sv')))"

definition Get ::
  "('f::zero, 'c) env \<Rightarrow> ReadIter \<times> ('f, 'c) field_value list \<Rightarrow>
     status \<times> ReadIter \<times> ('f, 'c) field_value list" where
  "Get E s =
     (let (this, sv) = s;
          (row, err) = shd (Reader this);
          this = this\<lparr>Reader := stl (Reader this), Line := wrap_int 64 (Line this + 1)\<rparr>
      in case err of
           Some e \<Rightarrow> (Returned False, (if e \<noteq> EOF then this\<lparr>Error := Some e\<rparr> else this), sv)
         | None \<Rightarrow> Get_loop E row this 0 (tags this) sv)"

text \<open>The state after \<open>n\<close> calls of \<open>Get\<close>, whatever each call reports.\<close>

definition Get_calls ::
  "('f::zero, 'c) env \<Rightarrow> nat \<Rightarrow> ReadIter \<times> ('f, 'c) field_value list \<Rightarrow>
     ReadIter \<times> ('f, 'c) field_value list" where
  "Get_calls E n s = ((\<lambda>s. snd (Get E s)) ^^ n) s"

section \<open>Plans\<close>

text \<open>
  The three slices \<open>fields\<close>, \<open>kinds\<close> and \<open>tags\<close> of a session have one entry for each
  field of the struct type. \<open>plan_ok\<close> says what \<open>NewReadIter\<close> leaves in them: the
  slices have one length, and the entry of field \<open>fi\<close> is either the untouched one of a
  field that matched no header (the zero \<open>Value\<close>, kind \<open>none_k\<close>) or holds a handle on
  the field \<open>fi\<close> itself, with the kind the classification gave.
\<close>

definition plan_ok :: "ReadIter \<Rightarrow> bool" where
  "plan_ok this \<longleftrightarrow>
     length (kinds this) = length (tags this) \<and>
     length (fields' this) = length (tags this) \<and>
     (\<forall>fi < length (tags this).
        (case fields' this ! fi of
           Zero_Value \<Rightarrow> kinds this ! fi = none_k
         | Field_Value i k \<Rightarrow> i = fi \<and> kinds this ! fi = switch_Kind k
         | Field_Addr i \<Rightarrow> i = fi \<and> kinds this ! fi = value_k))"

text \<open>
  The fields a session converts: the indices of the entries whose kind has a case in the
  \<open>switch\<close> of \<open>Get\<close>, in the order of the loop.
\<close>

definition bound_fields :: "ReadIter \<Rightarrow> nat list" where
  "bound_fields this = filter (\<lambda>fi. kinds this ! fi \<noteq> none_k) [0..<length (tags this)]"

section \<open>Examples\<close>

text \<open>
  For the examples only: \<open>strings.EqualFold\<close> on strings of ASCII letters, digits and
  spaces, where two strings are equal under folding when they are equal once every byte
  has gone through \<open>lower\<close>.
\<close>

definition EqualFold_ascii :: "string \<Rightarrow> string \<Rightarrow> bool" where
  "EqualFold_ascii s t \<longleftrightarrow>
     map (\<lambda>c. lower (of_char c)) s = map (\<lambda>c. lower (of_char c)) t"

text \<open>
  An environment for the examples: the conversion of floats knows one number; the custom
  type keeps the text it was given and rejects the empty text.
\<close>

definition example_env :: "(real, string) env" where
  "example_env =
     \<lparr>atof = (\<lambda>s. if s = ''1.5'' then (3 / 2, None) else (0, Some ErrSyntax)),
      float32 = (\<lambda>x. x),
      Value_Set = (\<lambda>s c. if s = [] then (False, c) else (True, s))\<rparr>"

definition plain_field :: "string \<Rightarrow> string \<Rightarrow> Kind \<Rightarrow> StructField" where
  \<comment> \<open>an exported field whose type has no methods\<close>
  "plain_field n t k =
     \<lparr>Name = n, Tag_field = t, Type_Kind = k, IsExported = True,
      addr_is_Value = False, val_is_Value = False\<rparr>"

definition custom_field :: "string \<Rightarrow> string \<Rightarrow> Kind \<Rightarrow> StructField" where
  \<comment> \<open>an exported field of a type with \<open>String\<close> and \<open>Set\<close> on its pointer receiver\<close>
  "custom_field n t k =
     \<lparr>Name = n, Tag_field = t, Type_Kind = k, IsExported = True,
      addr_is_Value = True, val_is_Value = False\<rparr>"

definition unexported_field :: "string \<Rightarrow> string \<Rightarrow> Kind \<Rightarrow> StructField" where
  \<comment> \<open>a field that is not exported; reflection shows nothing of its value\<close>
  "unexported_field n t k =
     \<lparr>Name = n, Tag_field = t, Type_Kind = k, IsExported = False,
      addr_is_Value = False, val_is_Value = False\<rparr>"

definition rows :: "string list list \<Rightarrow> Reader" where
  \<comment> \<open>a row source that gives the rows and then \<open>io.EOF\<close> for ever\<close>
  "rows rs = shift (map (\<lambda>r. (r, None)) rs) (sconst ([], Some EOF))"

text \<open>
  \<open>struct { A int; B string }\<close> and the session \<open>NewReadIter\<close> builds for it over the
  header \<open>["A", "B"]\<close>, with the rest of the row source.
\<close>

definition AB_struct :: "StructField list" where
  "AB_struct = [plain_field ''A'' [] reflect_Int, plain_field ''B'' [] reflect_String]"

definition AB_session :: "Reader \<Rightarrow> ReadIter" where
  "AB_session r =
     \<lparr>Reader = r, Headers = [''A'', ''B''], Error = None, Line = 1, Column = 0,
      fields' = [Field_Value 0 reflect_Int, Field_Value 1 reflect_String],
      kinds = [int_k, string_k], tags = [0, 1]\<rparr>"

text \<open>
  \<open>struct { N int; U uint; F float64; Extra string; C Custom }\<close>, where \<open>*Custom\<close>
  implements \<open>Value\<close>, and its session over the header \<open>["n", "u", "f", "c"]\<close>: no
  header matches \<open>Extra\<close>.
\<close>

definition Rec_struct :: "StructField list" where
  "Rec_struct =
     [plain_field ''N'' [] reflect_Int, plain_field ''U'' [] reflect_Uint,
      plain_field ''F'' [] reflect_Float64, plain_field ''Extra'' [] reflect_String,
      custom_field ''C'' [] reflect_Struct]"

definition Rec_session :: "Reader \<Rightarrow> ReadIter" where
  "Rec_session r =
     \<lparr>Reader = r, Headers = [''n'', ''u'', ''f'', ''c''], Error = None, Line = 1, Column = 0,
      fields' = [Field_Value 0 reflect_Int, Field_Value 1 reflect_Uint,
                 Field_Value 2 reflect_Float64, Zero_Value, Field_Addr 4],
      kinds = [int_k, uint_k, float_k, none_k, value_k], tags = [0, 1, 2, 0, 3]\<rparr>"

definition Rec_value :: "(real, string) field_value list" where
  "Rec_value = [Int_val 7, Uint_val 7, Float_val 7, String_val ''kept'', Custom_val ''old'']"

section \<open>Properties\<close>

subsection \<open>The parsers\<close>

lemma ParseUint_loop_err:
  "ParseUint_loop b m n s = (v, Some e) \<Longrightarrow>
     (e = ErrSyntax \<and> v = 0) \<or> (e = ErrRange \<and> v = m)"
  by (induction s arbitrary: n) (auto split: option.splits if_splits simp: Let_def)

lemma ParseUint_err:
  "ParseUint s = (v, Some e) \<Longrightarrow>
     (e = ErrSyntax \<and> v = 0) \<or> (e = ErrRange \<and> v = 2 ^ IntSize - 1)"
  unfolding ParseUint_def
  by (cases "s = []") (auto dest: ParseUint_loop_err)

lemma ParseInt_err:
  "ParseInt s = (v, Some e) \<Longrightarrow>
     (e = ErrSyntax \<and> v = 0) \<or>
     (e = ErrRange \<and> v = (if hd s = CHR ''-'' then - (2 ^ 63) else 2 ^ 63 - 1))"
proof (cases "s = []")
  case True
  assume "ParseInt s = (v, Some e)"
  with True show ?thesis by (simp add: ParseInt_def)
next
  case False
  assume r: "ParseInt s = (v, Some e)"
  obtain un err where u: "ParseUint (if hd s = CHR ''+'' \<or> hd s = CHR ''-'' then tl s else s) = (un, err)"
    by (cases "ParseUint (if hd s = CHR ''+'' \<or> hd s = CHR ''-'' then tl s else s)") auto
  show ?thesis
  proof (cases err)
    case None
    with False r u show ?thesis
      by (auto simp: ParseInt_def Let_def IntSize_def split: if_splits)
  next
    case (Some e')
    with u have "(e' = ErrSyntax \<and> un = 0) \<or> (e' = ErrRange \<and> un = 2 ^ IntSize - 1)"
      by (auto dest: ParseUint_err)
    with False r u Some show ?thesis
      by (auto simp: ParseInt_def Let_def IntSize_def split: if_splits)
  qed
qed

lemma ParseInt_examples:
  "ParseInt ''0'' = (0, None)" "ParseInt ''1'' = (1, None)" "ParseInt ''5'' = (5, None)"
  "ParseInt ''x'' = (0, Some ErrSyntax)"
  by (simp_all add: ParseInt_def ParseUint_def digit_of_def lower_def maxUint64_def
      IntSize_def wrap_int_def)

lemma ParseUint_examples:
  "ParseUint [] = (0, Some ErrSyntax)" "ParseUint ''2'' = (2, None)"
  by (simp_all add: ParseUint_def digit_of_def lower_def maxUint64_def IntSize_def)

lemma wrap_int_0: "0 < w \<Longrightarrow> wrap_int w 0 = 0"
proof -
  assume "0 < w"
  then have "(2::int) ^ (w - 1) < 2 ^ w"
    by (simp add: power_strict_increasing)
  then show ?thesis by (simp add: wrap_int_def)
qed

lemma int_bits_pos: "int_bits k = Some w \<Longrightarrow> 0 < w"
  by (cases k) (auto simp: IntSize_def)

subsection \<open>The search of the headers\<close>

lemma find_header_None: "find_header eqf hs tag k0 = None \<longleftrightarrow> (\<forall>h \<in> set hs. \<not> eqf h tag)"
  by (induction hs arbitrary: k0) auto

lemma find_header_Some:
  "find_header eqf hs tag k0 = Some k \<Longrightarrow>
     k0 \<le> k \<and> k - k0 < length hs \<and> eqf (hs ! (k - k0)) tag \<and> (\<forall>j < k - k0. \<not> eqf (hs ! j) tag)"
proof (induction hs arbitrary: k0)
  case Nil
  then show ?case by simp
next
  case (Cons h hs)
  show ?case
  proof (cases "eqf h tag")
    case True
    with Cons.prems show ?thesis by simp
  next
    case False
    with Cons.prems have r: "find_header eqf hs tag (Suc k0) = Some k" by simp
    from Cons.IH [OF r] have a: "Suc k0 \<le> k" "k - Suc k0 < length hs"
      "eqf (hs ! (k - Suc k0)) tag" "\<forall>j < k - Suc k0. \<not> eqf (hs ! j) tag" by auto
    from a(1) have e: "k - k0 = Suc (k - Suc k0)" by arith
    have "\<forall>j < k - k0. \<not> eqf ((h # hs) ! j) tag"
    proof (intro allI impI)
      fix j assume "j < k - k0"
      then show "\<not> eqf ((h # hs) ! j) tag"
        using False a(4) e by (cases j) auto
    qed
    with a e show ?thesis by auto
  qed
qed

lemma find_header_first:
  "k < length hs \<Longrightarrow> eqf (hs ! k) tag \<Longrightarrow> \<forall>j < k. \<not> eqf (hs ! j) tag \<Longrightarrow>
     find_header eqf hs tag k0 = Some (k0 + k)"
proof (induction hs arbitrary: k k0)
  case Nil
  then show ?case by simp
next
  case (Cons h hs)
  show ?case
  proof (cases k)
    case 0
    with Cons.prems show ?thesis by simp
  next
    case (Suc k')
    with Cons.prems have "\<not> eqf h tag" by auto
    moreover have "find_header eqf hs tag (Suc k0) = Some (Suc k0 + k')"
      using Cons.prems Suc by (intro Cons.IH) auto
    ultimately show ?thesis using Suc by simp
  qed
qed

lemma lookup_tag_eq:
  "lookup_tag f =
     (if Tag_field f \<noteq> [] then Tag_field f
      else map (\<lambda>c. if c = CHR ''_'' then CHR '' '' else c) (Name f))"
proof -
  have "map (\<lambda>c. if c = CHR ''_'' then CHR '' '' else c) s = s" if "CHR ''_'' \<notin> set s" for s
    using that by (induction s) auto
  then show ?thesis by (auto simp: lookup_tag_def Let_def)
qed

subsection \<open>The classification of a field\<close>

lemma switch_Kind_not_none: "switch_Kind k \<noteq> none_k"
  by (cases k) simp_all

lemma switch_Kind_int: "switch_Kind k = int_k \<Longrightarrow> int_bits k \<noteq> None"
  by (cases k) simp_all

lemma switch_Kind_uint: "switch_Kind k = uint_k \<Longrightarrow> uint_bits k \<noteq> None"
  by (cases k) simp_all

lemma switch_Kind_float: "switch_Kind k = float_k \<Longrightarrow> k = reflect_Float32 \<or> k = reflect_Float64"
  by (cases k) simp_all

lemma switch_Kind_string: "switch_Kind k = string_k \<Longrightarrow> k = reflect_String"
  by (cases k) simp_all

lemma classify_Inr:
  "classify f i = Returns (Inr (kd, h)) \<Longrightarrow>
     (h = Field_Addr i \<and> kd = value_k) \<or>
     (h = Field_Value i (Type_Kind f) \<and> kd = switch_Kind (Type_Kind f))"
  by (auto simp: classify_def Let_def split: if_splits)

lemma classify_Inl:
  "classify f i = Returns (Inl e) \<longleftrightarrow>
     e = CannotConvert \<and> IsExported f \<and> \<not> addr_is_Value f \<and>
     switch_Kind (Type_Kind f) = value_k \<and> \<not> val_is_Value f"
  by (auto simp: classify_def Let_def split: if_splits)

lemma classify_Panics:
  "classify f i = Panics p \<longleftrightarrow> p = Reflect_panic \<and> \<not> IsExported f"
  by (auto simp: classify_def Let_def split: if_splits)

subsection \<open>What NewReadIter builds\<close>

lemma NewReadIter_loop_frame:
  "NewReadIter_loop eqf fs i this = Returns (Inr it) \<Longrightarrow>
     Reader it = Reader this \<and> Headers it = Headers this \<and> Error it = Error this \<and>
     Line it = Line this \<and> Column it = Column this \<and>
     length (kinds it) = length (kinds this) \<and> length (tags it) = length (tags this) \<and>
     length (fields' it) = length (fields' this)"
proof (induction fs arbitrary: i this)
  case Nil
  then show ?case by simp
next
  case (Cons f fs)
  show ?case
  proof (cases "find_header eqf (Headers this) (lookup_tag f) 0")
    case None
    with Cons.prems have "NewReadIter_loop eqf fs (Suc i) this = Returns (Inr it)" by simp
    from Cons.IH [OF this] show ?thesis .
  next
    case (Some itag)
    with Cons.prems obtain kind val where c: "classify f i = Returns (Inr (kind, val))"
      and r: "NewReadIter_loop eqf fs (Suc i)
                (this\<lparr>kinds := (kinds this)[i := kind], tags := (tags this)[i := itag],
                      fields' := (fields' this)[i := val]\<rparr>) = Returns (Inr it)"
      by (auto split: sum.splits outcome.splits)
    from Cons.IH [OF r] show ?thesis by simp
  qed
qed

lemma NewReadIter_loop_outside:
  "NewReadIter_loop eqf fs i this = Returns (Inr it) \<Longrightarrow> j < i \<Longrightarrow>
     kinds it ! j = kinds this ! j \<and> tags it ! j = tags this ! j \<and> fields' it ! j = fields' this ! j"
proof (induction fs arbitrary: i this)
  case Nil
  then show ?case by simp
next
  case (Cons f fs)
  show ?case
  proof (cases "find_header eqf (Headers this) (lookup_tag f) 0")
    case None
    with Cons.prems have "NewReadIter_loop eqf fs (Suc i) this = Returns (Inr it)" by simp
    from Cons.IH [OF this] Cons.prems(2) show ?thesis by simp
  next
    case (Some itag)
    with Cons.prems obtain kind val where c: "classify f i = Returns (Inr (kind, val))"
      and r: "NewReadIter_loop eqf fs (Suc i)
                (this\<lparr>kinds := (kinds this)[i := kind], tags := (tags this)[i := itag],
                      fields' := (fields' this)[i := val]\<rparr>) = Returns (Inr it)"
      by (auto split: sum.splits outcome.splits)
    from Cons.IH [OF r] Cons.prems(2) show ?thesis by simp
  qed
qed

lemma NewReadIter_loop_entry:
  "NewReadIter_loop eqf fs i this = Returns (Inr it) \<Longrightarrow> j < length fs \<Longrightarrow>
     i + length fs \<le> length (kinds this) \<Longrightarrow> length (tags this) = length (kinds this) \<Longrightarrow>
     length (fields' this) = length (kinds this) \<Longrightarrow>
     (case find_header eqf (Headers this) (lookup_tag (fs ! j)) 0 of
        None \<Rightarrow> kinds it ! (i + j) = kinds this ! (i + j) \<and> tags it ! (i + j) = tags this ! (i + j) \<and>
                fields' it ! (i + j) = fields' this ! (i + j)
      | Some k \<Rightarrow> tags it ! (i + j) = k \<and>
                classify (fs ! j) (i + j) = Returns (Inr (kinds it ! (i + j), fields' it ! (i + j))))"
proof (induction fs arbitrary: i j this)
  case Nil
  then show ?case by simp
next
  case (Cons f fs)
  show ?case
  proof (cases "find_header eqf (Headers this) (lookup_tag f) 0")
    case None
    with Cons.prems have r: "NewReadIter_loop eqf fs (Suc i) this = Returns (Inr it)" by simp
    show ?thesis
    proof (cases j)
      case 0
      with None NewReadIter_loop_outside [OF r, of i] show ?thesis by simp
    next
      case (Suc j')
      with Cons.IH [OF r, of j'] Cons.prems show ?thesis
        by (auto split: option.splits)
    qed
  next
    case (Some itag)
    with Cons.prems obtain kind val where c: "classify f i = Returns (Inr (kind, val))"
      and r: "NewReadIter_loop eqf fs (Suc i)
                (this\<lparr>kinds := (kinds this)[i := kind], tags := (tags this)[i := itag],
                      fields' := (fields' this)[i := val]\<rparr>) = Returns (Inr it)"
      by (auto split: sum.splits outcome.splits)
    show ?thesis
    proof (cases j)
      case 0
      with Some c NewReadIter_loop_outside [OF r, of i] Cons.prems show ?thesis by simp
    next
      case (Suc j')
      with Cons.IH [OF r, of j'] Cons.prems show ?thesis
        by (auto split: option.splits)
    qed
  qed
qed

lemma NewReadIter_Inr:
  assumes "NewReadIter eqf rdr st = Returns (Inr it)"
  shows "snd (shd rdr) = None" and "Headers it = fst (shd rdr)" and "Reader it = stl rdr"
    and "Error it = None" and "Line it = 1" and "Column it = 0"
    and "length (kinds it) = length st" and "length (tags it) = length st"
    and "length (fields' it) = length st"
proof -
  obtain hs err where h: "shd rdr = (hs, err)" by (cases "shd rdr") auto
  with assms show "snd (shd rdr) = None"
    by (auto simp: NewReadIter_def split: option.splits)
  with h have e: "err = None" by simp
  let ?this = "\<lparr>Reader = stl rdr, Headers = hs, Error = None, Line = 1, Column = 0,
                  fields' = replicate (length st) Zero_Value, kinds = replicate (length st) none_k,
                  tags = replicate (length st) 0\<rparr>"
  from assms h e have r: "NewReadIter_loop eqf st 0 ?this = Returns (Inr it)"
    by (simp add: NewReadIter_def Let_def)
  from NewReadIter_loop_frame [OF r] h
  show "Headers it = fst (shd rdr)" "Reader it = stl rdr" "Error it = None" "Line it = 1"
    "Column it = 0" "length (kinds it) = length st" "length (tags it) = length st"
    "length (fields' it) = length st"
    by simp_all
qed

lemma NewReadIter_entry:
  assumes "NewReadIter eqf rdr st = Returns (Inr it)" and "j < length st"
  shows "(case find_header eqf (Headers it) (lookup_tag (st ! j)) 0 of
            None \<Rightarrow> kinds it ! j = none_k \<and> tags it ! j = 0 \<and> fields' it ! j = Zero_Value
          | Some k \<Rightarrow> tags it ! j = k \<and> classify (st ! j) j = Returns (Inr (kinds it ! j, fields' it ! j)))"
proof -
  obtain hs err where h: "shd rdr = (hs, err)" by (cases "shd rdr") auto
  from NewReadIter_Inr [OF assms(1)] h have e: "err = None" and hd: "Headers it = hs" by simp_all
  let ?this = "\<lparr>Reader = stl rdr, Headers = hs, Error = None, Line = 1, Column = 0,
                  fields' = replicate (length st) Zero_Value, kinds = replicate (length st) none_k,
                  tags = replicate (length st) 0\<rparr>"
  from assms h e have r: "NewReadIter_loop eqf st 0 ?this = Returns (Inr it)"
    by (simp add: NewReadIter_def Let_def)
  from NewReadIter_loop_entry [OF r assms(2)] assms(2) hd show ?thesis
    by (simp split: option.splits)
qed

lemma NewReadIter_plan_ok:
  assumes "NewReadIter eqf rdr st = Returns (Inr it)"
  shows "plan_ok it"
proof -
  note l = NewReadIter_Inr(7-9) [OF assms]
  have "case fields' it ! fi of
          Zero_Value \<Rightarrow> kinds it ! fi = none_k
        | Field_Value i k \<Rightarrow> i = fi \<and> kinds it ! fi = switch_Kind k
        | Field_Addr i \<Rightarrow> i = fi \<and> kinds it ! fi = value_k" if "fi < length st" for fi
  proof (cases "find_header eqf (Headers it) (lookup_tag (st ! fi)) 0")
    case None
    with NewReadIter_entry [OF assms that] show ?thesis by simp
  next
    case (Some k)
    with NewReadIter_entry [OF assms that]
    have "classify (st ! fi) fi = Returns (Inr (kinds it ! fi, fields' it ! fi))" by simp
    from classify_Inr [OF this] show ?thesis by auto
  qed
  with l show ?thesis by (simp add: plan_ok_def)
qed

lemma NewReadIter_loop_stop:
  "NewReadIter_loop eqf fs i this = r \<Longrightarrow> r = Panics p \<or> r = Returns (Inl e) \<Longrightarrow>
     \<exists>j < length fs. find_header eqf (Headers this) (lookup_tag (fs ! j)) 0 \<noteq> None \<and>
        (r = Panics p \<longrightarrow> classify (fs ! j) (i + j) = Panics p) \<and>
        (r = Returns (Inl e) \<longrightarrow> classify (fs ! j) (i + j) = Returns (Inl e))"
proof (induction fs arbitrary: i this)
  case Nil
  then show ?case by auto
next
  case (Cons f fs)
  have later: ?case if l: "NewReadIter_loop eqf fs (Suc i) this' = r"
    and h: "Headers this' = Headers this" for this'
  proof -
    from Cons.IH [OF l Cons.prems(2)] h obtain j where "j < length fs"
      "find_header eqf (Headers this) (lookup_tag (fs ! j)) 0 \<noteq> None"
      "r = Panics p \<longrightarrow> classify (fs ! j) (Suc i + j) = Panics p"
      "r = Returns (Inl e) \<longrightarrow> classify (fs ! j) (Suc i + j) = Returns (Inl e)" by auto
    then have "Suc j < length (f # fs) \<and>
        find_header eqf (Headers this) (lookup_tag ((f # fs) ! Suc j)) 0 \<noteq> None \<and>
        (r = Panics p \<longrightarrow> classify ((f # fs) ! Suc j) (i + Suc j) = Panics p) \<and>
        (r = Returns (Inl e) \<longrightarrow> classify ((f # fs) ! Suc j) (i + Suc j) = Returns (Inl e))"
      by simp
    then show ?thesis by blast
  qed
  have here: ?case if m: "find_header eqf (Headers this) (lookup_tag f) 0 \<noteq> None"
    and c: "r = Panics p \<longrightarrow> classify f i = Panics p"
      "r = Returns (Inl e) \<longrightarrow> classify f i = Returns (Inl e)"
  proof -
    from m c have "0 < length (f # fs) \<and>
        find_header eqf (Headers this) (lookup_tag ((f # fs) ! 0)) 0 \<noteq> None \<and>
        (r = Panics p \<longrightarrow> classify ((f # fs) ! 0) (i + 0) = Panics p) \<and>
        (r = Returns (Inl e) \<longrightarrow> classify ((f # fs) ! 0) (i + 0) = Returns (Inl e))"
      by auto
    then show ?thesis by blast
  qed
  show ?case
  proof (cases "find_header eqf (Headers this) (lookup_tag f) 0")
    case None
    with Cons.prems(1) have "NewReadIter_loop eqf fs (Suc i) this = r" by simp
    from later [OF this] show ?thesis by simp
  next
    case (Some itag)
    show ?thesis
    proof (cases "classify f i")
      case (Panics p')
      with Some Cons.prems(1) have "r = Panics p'" by simp
      with Panics have "r = Panics p \<longrightarrow> classify f i = Panics p"
        "r = Returns (Inl e) \<longrightarrow> classify f i = Returns (Inl e)" by auto
      with Some here show ?thesis by simp
    next
      case (Returns x)
      show ?thesis
      proof (cases x)
        case (Inl e')
        with Returns Some Cons.prems(1) have "r = Returns (Inl e')" by simp
        with Returns Inl have "r = Panics p \<longrightarrow> classify f i = Panics p"
          "r = Returns (Inl e) \<longrightarrow> classify f i = Returns (Inl e)" by auto
        with Some here show ?thesis by simp
      next
        case (Inr kv)
        obtain kind val where kv: "kv = (kind, val)" by (cases kv) auto
        let ?t = "this\<lparr>kinds := (kinds this)[i := kind], tags := (tags this)[i := itag],
                      fields' := (fields' this)[i := val]\<rparr>"
        from Some Returns Inr kv Cons.prems(1) have "NewReadIter_loop eqf fs (Suc i) ?t = r"
          by simp
        from later [OF this] show ?thesis by simp
      qed
    qed
  qed
qed

lemma NewReadIter_loop_Inl:
  "NewReadIter_loop eqf fs i this = Returns (Inl e) \<Longrightarrow>
     \<exists>j < length fs. find_header eqf (Headers this) (lookup_tag (fs ! j)) 0 \<noteq> None \<and>
        classify (fs ! j) (i + j) = Returns (Inl e)"
  using NewReadIter_loop_stop [of eqf fs i this "Returns (Inl e)" Reflect_panic e] by auto

lemma NewReadIter_loop_Panics:
  "NewReadIter_loop eqf fs i this = Panics p \<Longrightarrow>
     \<exists>j < length fs. find_header eqf (Headers this) (lookup_tag (fs ! j)) 0 \<noteq> None \<and>
        classify (fs ! j) (i + j) = Panics p"
  using NewReadIter_loop_stop [of eqf fs i this "Panics p" p CannotConvert] by auto

lemma NewReadIter_loop_fails:
  "j < length fs \<Longrightarrow> find_header eqf (Headers this) (lookup_tag (fs ! j)) 0 \<noteq> None \<Longrightarrow>
     classify (fs ! j) (i + j) = Returns (Inl e) \<Longrightarrow>
     \<forall>j' < j. find_header eqf (Headers this) (lookup_tag (fs ! j')) 0 \<noteq> None \<longrightarrow>
        IsExported (fs ! j') \<Longrightarrow>
     NewReadIter_loop eqf fs i this = Returns (Inl CannotConvert)"
proof (induction fs arbitrary: i j this)
  case Nil
  then show ?case by simp
next
  case (Cons f fs)
  show ?case
  proof (cases j)
    case 0
    with Cons.prems have c: "classify f i = Returns (Inl e)"
      and h: "find_header eqf (Headers this) (lookup_tag f) 0 \<noteq> None" by simp_all
    from c have "e = CannotConvert" by (simp add: classify_Inl)
    with c h show ?thesis by auto
  next
    case (Suc j')
    with Cons.prems have a: "j' < length fs"
      and c: "classify (fs ! j') (Suc i + j') = Returns (Inl e)" by simp_all
    have x: "\<forall>k < j'. find_header eqf (Headers this) (lookup_tag (fs ! k)) 0 \<noteq> None \<longrightarrow>
        IsExported (fs ! k)"
    proof (intro allI impI)
      fix k
      assume "k < j'" and "find_header eqf (Headers this) (lookup_tag (fs ! k)) 0 \<noteq> None"
      with Cons.prems(4) [rule_format, of "Suc k"] Suc show "IsExported (fs ! k)" by simp
    qed
    have r: "NewReadIter_loop eqf fs (Suc i) this' = Returns (Inl CannotConvert)"
      if "Headers this' = Headers this" for this'
      using Cons.IH [OF a _ c, of this'] Cons.prems(2) Suc that x by simp
    show ?thesis
    proof (cases "find_header eqf (Headers this) (lookup_tag f) 0")
      case None
      with r [of this] show ?thesis by simp
    next
      case (Some itag)
      with Cons.prems(4) [rule_format, of 0] Suc have ex: "IsExported f" by simp
      show ?thesis
      proof (cases "classify f i")
        case (Panics p)
        with ex show ?thesis by (simp add: classify_Panics)
      next
        case (Returns y)
        show ?thesis
        proof (cases y)
          case (Inl e')
          with Returns have "e' = CannotConvert" by (simp add: classify_Inl)
          with Returns Inl Some show ?thesis by simp
        next
          case (Inr kv)
          with Returns Some r show ?thesis by (cases kv) simp
        qed
      qed
    qed
  qed
qed

lemma plan_ok_cong:
  "kinds it = kinds this \<Longrightarrow> tags it = tags this \<Longrightarrow> fields' it = fields' this \<Longrightarrow>
     plan_ok it = plan_ok this"
  by (simp add: plan_ok_def cong: handle.case_cong)

lemma plan_ok_entry:
  "plan_ok this \<Longrightarrow> fi < length (tags this) \<Longrightarrow>
     (case fields' this ! fi of
        Zero_Value \<Rightarrow> kinds this ! fi = none_k
      | Field_Value i k \<Rightarrow> i = fi \<and> kinds this ! fi = switch_Kind k
      | Field_Addr i \<Rightarrow> i = fi \<and> kinds this ! fi = value_k)"
  by (simp add: plan_ok_def)

lemma plan_ok_handle:
  "plan_ok this \<Longrightarrow> fi < length (tags this) \<Longrightarrow>
     fields' this ! fi = Zero_Value \<or> (\<exists>k. fields' this ! fi = Field_Value fi k) \<or>
     fields' this ! fi = Field_Addr fi"
  using plan_ok_entry [of this fi] by (cases "fields' this ! fi") auto

lemma plan_ok_lengths:
  "plan_ok this \<Longrightarrow> length (kinds this) = length (tags this) \<and>
     length (fields' this) = length (tags this)"
  by (simp add: plan_ok_def)

lemma plan_ok_primitive:
  assumes "plan_ok this" and "fi < length (tags this)"
    and "kinds this ! fi = int_k \<or> kinds this ! fi = uint_k \<or> kinds this ! fi = float_k \<or>
         kinds this ! fi = string_k"
  shows "\<exists>k. fields' this ! fi = Field_Value fi k \<and> switch_Kind k = kinds this ! fi"
  using plan_ok_entry [OF assms(1,2)] assms(3)
  by (cases "fields' this ! fi") auto

subsection \<open>One entry of the loop of Get\<close>

lemma set_Value_frame:
  "set_Value E i vals sv = Inr (err, sv') \<Longrightarrow>
     length sv' = length sv \<and> (\<forall>j. j \<noteq> i \<longrightarrow> sv' ! j = sv ! j)"
  by (auto simp: set_Value_def split: if_splits field_value.splits prod.splits)

lemma convert_frame:
  assumes "convert E kd h vals sv = Inr (err, sv')"
    and "h = Zero_Value \<or> (\<exists>k. h = Field_Value i k) \<or> h = Field_Addr i"
  shows "length sv' = length sv \<and> (\<forall>j. j \<noteq> i \<longrightarrow> sv' ! j = sv ! j)"
proof (cases kd)
  case none_k
  with assms show ?thesis by simp
next
  case string_k
  with assms show ?thesis by (auto split: sum.splits if_splits)
next
  case int_k
  with assms show ?thesis
    by (auto simp: Let_def split: sum.splits if_splits prod.splits option.splits)
next
  case float_k
  with assms show ?thesis
    by (auto simp: Let_def split: sum.splits if_splits prod.splits)
next
  case uint_k
  with assms show ?thesis
    by (auto simp: Let_def split: sum.splits if_splits prod.splits option.splits)
next
  case value_k
  with assms have "set_Value E i vals sv = Inr (err, sv')" by auto
  from set_Value_frame [OF this] show ?thesis .
qed

lemma convert_none: "convert E none_k h vals sv = Inr (None, sv)"
  by simp

text \<open>An entry that satisfies the condition of \<open>plan_ok\<close> converts without a panic of reflection.\<close>

lemma convert_no_panic:
  assumes "case h of Zero_Value \<Rightarrow> kd = none_k
           | Field_Value i k \<Rightarrow> i = fi \<and> kd = switch_Kind k
           | Field_Addr i \<Rightarrow> i = fi \<and> kd = value_k"
    and "fi < length sv"
  shows "\<exists>err sv'. convert E kd h vals sv = Inr (err, sv')"
proof (cases h)
  case Zero_Value
  with assms show ?thesis by simp
next
  case (Field_Addr i)
  with assms show ?thesis
    by (auto simp: set_Value_def split: field_value.splits prod.splits)
next
  case (Field_Value i k)
  with assms have i: "i = fi" and kd: "kd = switch_Kind k" by simp_all
  show ?thesis
  proof (cases kd)
    case none_k
    then show ?thesis by simp
  next
    case string_k
    with kd switch_Kind_string [of k] Field_Value show ?thesis by simp
  next
    case int_k
    with kd switch_Kind_int [of k] Field_Value show ?thesis
      by (auto simp: Let_def split: prod.splits)
  next
    case float_k
    with kd switch_Kind_float [of k] Field_Value show ?thesis
      by (auto simp: Let_def split: prod.splits)
  next
    case uint_k
    with kd switch_Kind_uint [of k] Field_Value show ?thesis
      by (auto simp: Let_def split: prod.splits)
  next
    case value_k
    with Field_Value i assms(2) show ?thesis
      by (auto simp: set_Value_def split: field_value.splits prod.splits)
  qed
qed

lemma convert_int_empty:
  "switch_Kind k = int_k \<Longrightarrow>
     convert E int_k (Field_Value fi k) [] sv = Inr (None, sv[fi := Int_val 0])"
proof -
  assume "switch_Kind k = int_k"
  from switch_Kind_int [OF this] obtain w where w: "int_bits k = Some w" by auto
  from int_bits_pos [OF w] have "wrap_int w 0 = 0" by (rule wrap_int_0)
  with w show ?thesis by (simp add: ParseInt_examples)
qed

lemma convert_uint_empty:
  "switch_Kind k = uint_k \<Longrightarrow>
     convert E uint_k (Field_Value fi k) [] sv = Inr (Some ErrSyntax, sv[fi := Uint_val 0])"
proof -
  assume "switch_Kind k = uint_k"
  from switch_Kind_uint [OF this] obtain w where w: "uint_bits k = Some w" by auto
  then show ?thesis by (simp add: ParseUint_examples)
qed

lemma convert_float_empty:
  "switch_Kind k = float_k \<Longrightarrow>
     convert E float_k (Field_Value fi k) [] sv =
       Inr (Some ErrSyntax, sv[fi := Float_val (if k = reflect_Float32 then float32 E 0 else 0)])"
proof -
  assume "switch_Kind k = float_k"
  from switch_Kind_float [OF this] show ?thesis by (auto simp: ParseFloat_def)
qed

subsection \<open>The loop of Get and its calls\<close>

lemma Get_loop_this:
  "Get_loop E row this fi cs sv = (st, it, sv') \<Longrightarrow>
     (st = Returned True \<and> it = this) \<or>
     (\<exists>p. st = Panicked p \<and> it = this) \<or>
     (\<exists>ci e. st = Returned False \<and> ci \<in> set cs \<and> ci < length row \<and>
        it = this\<lparr>Column := ci + 1, Error := Some e\<rparr>)"
proof (induction cs arbitrary: fi sv)
  case Nil
  then show ?case by simp
next
  case (Cons ci cs)
  show ?case
  proof (cases "ci \<ge> length row \<or> fi \<ge> length (fields' this) \<or> fi \<ge> length (kinds this)")
    case True
    with Cons.prems show ?thesis by (auto split: if_splits)
  next
    case False
    show ?thesis
    proof (cases "convert E (kinds this ! fi) (fields' this ! fi) (row ! ci) sv")
      case (Inl p)
      with False Cons.prems show ?thesis by auto
    next
      case (Inr r)
      obtain err sv1 where r: "r = (err, sv1)" by (cases r) auto
      show ?thesis
      proof (cases err)
        case None
        with False Inr r Cons.prems have "Get_loop E row this (Suc fi) cs sv1 = (st, it, sv')"
          by simp
        from Cons.IH [OF this] show ?thesis by auto
      next
        case (Some e)
        with False Inr r Cons.prems show ?thesis by auto
      qed
    qed
  qed
qed

lemma Get_loop_untouched:
  "plan_ok this \<Longrightarrow> fi + length cs \<le> length (tags this) \<Longrightarrow>
     Get_loop E row this fi cs sv = (st, it, sv') \<Longrightarrow>
     j < fi \<or> fi + length cs \<le> j \<or> kinds this ! j = none_k \<Longrightarrow>
     sv' ! j = sv ! j \<and> length sv' = length sv"
proof (induction cs arbitrary: fi sv)
  case Nil
  then show ?case by simp
next
  case (Cons ci cs)
  from Cons.prems(1,2) have fi: "fi < length (tags this)" "fi < length (kinds this)"
    "fi < length (fields' this)"
    by (simp_all add: plan_ok_def)
  show ?case
  proof (cases "ci \<ge> length row")
    case True
    with Cons.prems(3) show ?thesis by simp
  next
    case False
    show ?thesis
    proof (cases "convert E (kinds this ! fi) (fields' this ! fi) (row ! ci) sv")
      case (Inl p)
      with False fi Cons.prems(3) show ?thesis by simp
    next
      case (Inr r)
      obtain err sv1 where r: "r = (err, sv1)" by (cases r) auto
      from convert_frame [OF Inr [unfolded r] plan_ok_handle [OF Cons.prems(1) fi(1)]]
      have len: "length sv1 = length sv" and oth: "j \<noteq> fi \<Longrightarrow> sv1 ! j = sv ! j" by auto
      have same: "sv1 ! j = sv ! j"
      proof (cases "j = fi")
        case True
        with Cons.prems(4) have "kinds this ! fi = none_k" by auto
        with Inr r have "sv1 = sv" by simp
        then show ?thesis by simp
      next
        case False
        with oth show ?thesis by simp
      qed
      show ?thesis
      proof (cases err)
        case None
        with False fi Inr r Cons.prems(3)
        have g: "Get_loop E row this (Suc fi) cs sv1 = (st, it, sv')" by simp
        have "j < Suc fi \<or> Suc fi + length cs \<le> j \<or> kinds this ! j = none_k"
          using Cons.prems(4) by auto
        from Cons.IH [OF Cons.prems(1) _ g this] Cons.prems(2) same len show ?thesis by simp
      next
        case (Some e)
        with False fi Inr r Cons.prems(3) same len show ?thesis by auto
      qed
    qed
  qed
qed

lemma Get_loop_outcome:
  "plan_ok this \<Longrightarrow> fi + length cs \<le> length (tags this) \<Longrightarrow>
     length sv = length (tags this) \<Longrightarrow>
     Get_loop E row this fi cs sv = (st, it, sv') \<Longrightarrow>
     (st = Returned True \<and> it = this \<and> (\<forall>ci \<in> set cs. ci < length row)) \<or>
     (st = Panicked Index_out_of_range \<and> it = this \<and> (\<exists>ci \<in> set cs. length row \<le> ci)) \<or>
     (\<exists>ci e. st = Returned False \<and> ci \<in> set cs \<and> ci < length row \<and>
        it = this\<lparr>Column := ci + 1, Error := Some e\<rparr>)"
proof (induction cs arbitrary: fi sv)
  case Nil
  then show ?case by simp
next
  case (Cons ci cs)
  from Cons.prems(1,2) have fi: "fi < length (tags this)" "fi < length (kinds this)"
    "fi < length (fields' this)"
    by (simp_all add: plan_ok_def)
  show ?case
  proof (cases "ci \<ge> length row")
    case True
    with Cons.prems(4) show ?thesis by auto
  next
    case False
    from convert_no_panic [OF plan_ok_entry [OF Cons.prems(1) fi(1)], of sv E "row ! ci"]
      fi(1) Cons.prems(3)
    obtain err sv1 where c: "convert E (kinds this ! fi) (fields' this ! fi) (row ! ci) sv = Inr (err, sv1)"
      by auto
    from convert_frame [OF c plan_ok_handle [OF Cons.prems(1) fi(1)]]
    have len: "length sv1 = length sv" by simp
    show ?thesis
    proof (cases err)
      case None
      with False fi c Cons.prems(4)
      have g: "Get_loop E row this (Suc fi) cs sv1 = (st, it, sv')" by simp
      from Cons.IH [OF Cons.prems(1) _ _ g] Cons.prems(2,3) len False show ?thesis by auto
    next
      case (Some e)
      with False fi c Cons.prems(4) show ?thesis by auto
    qed
  qed
qed

lemma Get_loop_append:
  "Get_loop E row this fi cs1 sv = (Returned True, it, sv1) \<Longrightarrow>
     Get_loop E row this fi (cs1 @ cs2) sv = Get_loop E row this (fi + length cs1) cs2 sv1"
proof (induction cs1 arbitrary: fi sv)
  case Nil
  then show ?case by simp
next
  case (Cons ci cs)
  show ?case
  proof (cases "ci \<ge> length row \<or> fi \<ge> length (fields' this) \<or> fi \<ge> length (kinds this)")
    case True
    with Cons.prems show ?thesis by (auto split: if_splits)
  next
    case False
    show ?thesis
    proof (cases "convert E (kinds this ! fi) (fields' this ! fi) (row ! ci) sv")
      case (Inl p)
      with False Cons.prems show ?thesis by auto
    next
      case (Inr r)
      obtain err sv2 where r: "r = (err, sv2)" by (cases r) auto
      show ?thesis
      proof (cases err)
        case None
        with False Inr r Cons.prems
        have "Get_loop E row this (Suc fi) cs sv2 = (Returned True, it, sv1)" by simp
        from Cons.IH [OF this] False Inr r None show ?thesis by simp
      next
        case (Some e)
        with False Inr r Cons.prems show ?thesis by auto
      qed
    qed
  qed
qed

lemma Get_read_fault:
  "shd (Reader this) = (row, Some e) \<Longrightarrow>
     Get E (this, sv) =
       (Returned False,
        (if e \<noteq> EOF
         then this\<lparr>Reader := stl (Reader this), Line := wrap_int 64 (Line this + 1),
                   Error := Some e\<rparr>
         else this\<lparr>Reader := stl (Reader this), Line := wrap_int 64 (Line this + 1)\<rparr>),
        sv)"
  by (simp add: Get_def Let_def)

lemma Get_read_row:
  "shd (Reader this) = (row, None) \<Longrightarrow>
     Get E (this, sv) =
       Get_loop E row (this\<lparr>Reader := stl (Reader this), Line := wrap_int 64 (Line this + 1)\<rparr>)
         0 (tags this) sv"
  by (simp add: Get_def Let_def)

lemma Get_this:
  assumes "Get E (this, sv) = (st, it, sv')"
  shows "kinds it = kinds this" and "tags it = tags this" and "fields' it = fields' this"
    and "Headers it = Headers this" and "Reader it = stl (Reader this)"
    and "Line it = wrap_int 64 (Line this + 1)"
    and "Error it = Error this \<or> (st = Returned False \<and> Error it \<noteq> None)"
    and "st = Returned True \<Longrightarrow> Error it = Error this \<and> Column it = Column this"
proof -
  obtain row err where h: "shd (Reader this) = (row, err)" by (cases "shd (Reader this)") auto
  let ?t1 = "this\<lparr>Reader := stl (Reader this), Line := wrap_int 64 (Line this + 1)\<rparr>"
  have "kinds it = kinds this \<and> tags it = tags this \<and> fields' it = fields' this \<and>
    Headers it = Headers this \<and> Reader it = stl (Reader this) \<and>
    Line it = wrap_int 64 (Line this + 1) \<and>
    (Error it = Error this \<or> (st = Returned False \<and> Error it \<noteq> None)) \<and>
    (st = Returned True \<longrightarrow> Error it = Error this \<and> Column it = Column this)"
  proof (cases err)
    case None
    with assms h have "Get_loop E row ?t1 0 (tags this) sv = (st, it, sv')"
      by (simp add: Get_read_row)
    from Get_loop_this [OF this] show ?thesis by auto
  next
    case (Some e)
    with assms h show ?thesis by (auto simp: Get_read_fault split: if_splits)
  qed
  then show "kinds it = kinds this" and "tags it = tags this" and "fields' it = fields' this"
    and "Headers it = Headers this" and "Reader it = stl (Reader this)"
    and "Line it = wrap_int 64 (Line this + 1)"
    and "Error it = Error this \<or> (st = Returned False \<and> Error it \<noteq> None)"
    and "st = Returned True \<Longrightarrow> Error it = Error this \<and> Column it = Column this"
    by simp_all
qed

lemma Get_plan_ok: "plan_ok this \<Longrightarrow> plan_ok (fst (snd (Get E (this, sv))))"
proof -
  assume p: "plan_ok this"
  obtain st it sv' where g: "Get E (this, sv) = (st, it, sv')"
    by (cases "Get E (this, sv)") auto
  from plan_ok_cong [OF Get_this(1-3) [OF g]] p g show ?thesis by simp
qed

lemma Get_calls_Suc: "Get_calls E (Suc n) s = snd (Get E (Get_calls E n s))"
  by (simp add: Get_calls_def)

lemma Get_calls_0: "Get_calls E 0 s = s"
  by (simp add: Get_calls_def)

lemma Get_calls_plan:
  "kinds (fst (Get_calls E n (this, sv))) = kinds this \<and>
   tags (fst (Get_calls E n (this, sv))) = tags this \<and>
   fields' (fst (Get_calls E n (this, sv))) = fields' this"
proof (induction n)
  case 0
  show ?case by (simp add: Get_calls_0)
next
  case (Suc n)
  obtain it1 sv1 where s: "Get_calls E n (this, sv) = (it1, sv1)"
    by (cases "Get_calls E n (this, sv)") auto
  obtain st it2 sv2 where g: "Get E (it1, sv1) = (st, it2, sv2)"
    by (cases "Get E (it1, sv1)") auto
  from Get_this(1-3) [OF g] Suc s g show ?case
    by (simp add: Get_calls_Suc)
qed

lemma Get_calls_plan_ok: "plan_ok this \<Longrightarrow> plan_ok (fst (Get_calls E n (this, sv)))"
  using Get_calls_plan [of E n this sv] plan_ok_cong [of "fst (Get_calls E n (this, sv))" this]
  by simp

lemma Get_untouched:
  assumes "plan_ok this" and "kinds this ! j = none_k"
  shows "snd (snd (Get E (this, sv))) ! j = sv ! j"
proof -
  obtain row err where s: "shd (Reader this) = (row, err)" by (cases "shd (Reader this)") auto
  show ?thesis
  proof (cases err)
    case None
    let ?t = "this\<lparr>Reader := stl (Reader this), Line := wrap_int 64 (Line this + 1)\<rparr>"
    have "plan_ok ?t = plan_ok this" by (rule plan_ok_cong) simp_all
    with assms(1) have p: "plan_ok ?t" by simp
    obtain st it sv' where g: "Get_loop E row ?t 0 (tags ?t) sv = (st, it, sv')"
      by (cases "Get_loop E row ?t 0 (tags ?t) sv") auto
    from Get_loop_untouched [OF p _ g, of j] assms(2) have "sv' ! j = sv ! j" by simp
    with s None g show ?thesis by (simp add: Get_read_row)
  next
    case (Some e)
    with s show ?thesis by (simp add: Get_read_fault)
  qed
qed

lemma Get_calls_untouched:
  assumes "plan_ok this" and "kinds this ! j = none_k"
  shows "snd (Get_calls E n (this, sv)) ! j = sv ! j"
proof (induction n)
  case 0
  show ?case by (simp add: Get_calls_0)
next
  case (Suc n)
  obtain it1 sv1 where s: "Get_calls E n (this, sv) = (it1, sv1)"
    by (cases "Get_calls E n (this, sv)") auto
  from Get_calls_plan [of E n this sv] s
  have k: "kinds it1 = kinds this" "tags it1 = tags this" "fields' it1 = fields' this"
    by simp_all
  from plan_ok_cong [OF k] assms(1) have p: "plan_ok it1" by simp
  from Get_untouched [OF p, of j E sv1] k(1) assms(2) Suc s show ?case
    by (simp add: Get_calls_Suc)
qed

subsection \<open>The examples\<close>

lemma EqualFold_ascii_examples:
  "EqualFold_ascii ''A'' ''A''" "\<not> EqualFold_ascii ''A'' ''B''" "EqualFold_ascii ''B'' ''B''"
  "EqualFold_ascii ''n'' ''N''" "\<not> EqualFold_ascii ''n'' ''U''" "\<not> EqualFold_ascii ''n'' ''F''"
  "\<not> EqualFold_ascii ''n'' ''Extra''" "\<not> EqualFold_ascii ''n'' ''C''"
  "EqualFold_ascii ''u'' ''U''" "\<not> EqualFold_ascii ''u'' ''F''"
  "\<not> EqualFold_ascii ''u'' ''Extra''" "\<not> EqualFold_ascii ''u'' ''C''"
  "EqualFold_ascii ''f'' ''F''" "\<not> EqualFold_ascii ''f'' ''Extra''" "\<not> EqualFold_ascii ''f'' ''C''"
  "\<not> EqualFold_ascii ''c'' ''Extra''" "EqualFold_ascii ''c'' ''C''"
  by (simp_all add: EqualFold_ascii_def lower_def)

lemma rows_simps:
  "shd (rows (r # rs)) = (r, None)" "stl (rows (r # rs)) = rows rs"
  "shd (rows []) = ([], Some EOF)" "stl (rows []) = rows []"
  by (simp_all add: rows_def)

lemma NewReadIter_AB:
  "NewReadIter EqualFold_ascii (rows ([''A'', ''B''] # rs)) AB_struct = Returns (Inr (AB_session (rows rs)))"
  by (simp add: NewReadIter_def rows_simps AB_struct_def AB_session_def plain_field_def
      lookup_tag_def classify_def EqualFold_ascii_examples)

lemma NewReadIter_Rec:
  "NewReadIter EqualFold_ascii (rows ([''n'', ''u'', ''f'', ''c''] # rs)) Rec_struct =
     Returns (Inr (Rec_session (rows rs)))"
  by (simp add: NewReadIter_def rows_simps Rec_struct_def Rec_session_def plain_field_def
      custom_field_def lookup_tag_def classify_def EqualFold_ascii_examples)

lemma Get_AB_x:
  "Get example_env (AB_session (rows ([''x'', ''y''] # rs)), sv) =
     (Returned False, (AB_session (rows rs))\<lparr>Line := 2, Column := 1, Error := Some ErrSyntax\<rparr>,
      sv[0 := Int_val 0])"
  by (simp add: Get_read_row rows_simps AB_session_def ParseInt_examples IntSize_def wrap_int_def)

subsection \<open>Short rows\<close>

text \<open>
  C1, as amended. \<open>Get\<close> has no out-of-range fault. When a row was read and an entry of
  \<open>tags\<close> is not below the number of fields of the row, either \<open>Get\<close> panics with an
  index out of range and records nothing on the session, or an earlier entry fails to
  convert and the fault is recorded at that earlier column, one that the row has. \<open>Get\<close>
  never returns true for such a row.
\<close>

theorem Get_short_row:
  assumes "plan_ok this" and "length sv = length (tags this)"
    and "shd (Reader this) = (row, None)"
    and "ci \<in> set (tags this)" and "length row \<le> ci"
  shows "(fst (Get E (this, sv)) = Panicked Index_out_of_range \<and>
          Error (fst (snd (Get E (this, sv)))) = Error this \<and>
          Column (fst (snd (Get E (this, sv)))) = Column this) \<or>
         (fst (Get E (this, sv)) = Returned False \<and>
          Error (fst (snd (Get E (this, sv)))) \<noteq> None \<and>
          0 < Column (fst (snd (Get E (this, sv)))) \<and>
          Column (fst (snd (Get E (this, sv)))) \<le> length row)"
proof -
  let ?t = "this\<lparr>Reader := stl (Reader this), Line := wrap_int 64 (Line this + 1)\<rparr>"
  obtain st it sv' where g: "Get E (this, sv) = (st, it, sv')"
    by (cases "Get E (this, sv)") auto
  with assms(3) have l: "Get_loop E row ?t 0 (tags ?t) sv = (st, it, sv')"
    by (simp add: Get_read_row)
  have "plan_ok ?t = plan_ok this"
    by (rule plan_ok_cong) simp_all
  with assms(1) have p: "plan_ok ?t" by simp
  from Get_loop_outcome [OF p _ _ l] assms(2,4,5) g show ?thesis
    by auto
qed

theorem Get_short_row_witness:
  "plan_ok (AB_session (rows [[''1'']])) \<and>
   shd (Reader (AB_session (rows [[''1'']]))) = ([''1''], None) \<and>
   Suc 0 \<in> set (tags (AB_session (rows [[''1'']]))) \<and>
   fst (Get example_env (AB_session (rows [[''1'']]), [Int_val 0, String_val []])) =
     Panicked Index_out_of_range"
proof -
  let ?s = "AB_session (rows [[''1'']])"
  let ?v = "[Int_val 0, String_val []] :: (real, string) field_value list"
  have p: "plan_ok ?s"
    using NewReadIter_plan_ok [OF NewReadIter_AB] .
  have l: "length ?v = length (tags ?s)"
    by (simp add: AB_session_def)
  have r: "shd (Reader ?s) = ([''1''], None)"
    by (simp add: AB_session_def rows_simps)
  have c: "Suc 0 \<in> set (tags ?s)"
    by (simp add: AB_session_def)
  have n: "length [''1''] \<le> Suc 0" by simp
  have g: "fst (Get example_env (?s, ?v)) = Panicked Index_out_of_range"
    by (simp add: Get_read_row rows_simps AB_session_def ParseInt_examples IntSize_def wrap_int_def)
  from Get_short_row [OF p l r c n, of example_env] p r c g show ?thesis by simp
qed

text \<open>
  C1 as stated fails on its own scenario: header \<open>["A", "B"]\<close>, the two fields bound to
  columns 1 and 2, row \<open>["1"]\<close>. \<open>Get\<close> writes the first field and panics at the second
  entry; the session has no error and its column is still 0.
\<close>

theorem Get_short_row_counterexample:
  "NewReadIter EqualFold_ascii (rows [[''A'', ''B''], [''1'']]) AB_struct =
     Returns (Inr (AB_session (rows [[''1'']]))) \<and>
   Get example_env (AB_session (rows [[''1'']]), [Int_val 0, String_val []]) =
     (Panicked Index_out_of_range, (AB_session (rows []))\<lparr>Line := 2\<rparr>,
      [Int_val 1, String_val []]) \<and>
   Error ((AB_session (rows []))\<lparr>Line := 2\<rparr>) = None \<and>
   Column ((AB_session (rows []))\<lparr>Line := 2\<rparr>) = 0"
  by (simp add: NewReadIter_AB Get_read_row rows_simps AB_session_def ParseInt_examples
      IntSize_def wrap_int_def)

subsection \<open>Empty text\<close>

text \<open>
  C2. A row was read, the entries before entry \<open>fi\<close> converted without error, leaving the
  target \<open>sv1\<close>, and the text of the column of entry \<open>fi\<close> is empty. If the kind of the
  entry is \<open>int_k\<close>, the field is set to 0, nothing is recorded and the loop goes on with
  the next entry. If the kind is \<open>uint_k\<close> or \<open>float_k\<close>, \<open>Get\<close> returns false with the
  syntax error as the error of the session and the column of the entry, counted from 1,
  as its column.
\<close>

theorem Get_empty_text:
  assumes "plan_ok this" and "shd (Reader this) = (row, None)"
    and "this1 = this\<lparr>Reader := stl (Reader this), Line := wrap_int 64 (Line this + 1)\<rparr>"
    and "fi < length (tags this)"
    and "Get_loop E row this1 0 (take fi (tags this)) sv = (Returned True, this1, sv1)"
    and "tags this ! fi < length row" and "row ! (tags this ! fi) = []"
  shows "(kinds this ! fi = int_k \<longrightarrow>
            Get E (this, sv) =
              Get_loop E row this1 (Suc fi) (drop (Suc fi) (tags this)) (sv1[fi := Int_val 0])) \<and>
         (kinds this ! fi = uint_k \<longrightarrow>
            Get E (this, sv) =
              (Returned False, this1\<lparr>Column := tags this ! fi + 1, Error := Some ErrSyntax\<rparr>,
               sv1[fi := Uint_val 0])) \<and>
         (kinds this ! fi = float_k \<longrightarrow>
            Get E (this, sv) =
              (Returned False, this1\<lparr>Column := tags this ! fi + 1, Error := Some ErrSyntax\<rparr>,
               sv1[fi := Float_val
                 (if fields' this ! fi = Field_Value fi reflect_Float32 then float32 E 0 else 0)]))"
proof -
  from assms(1,4) have len: "fi < length (kinds this)" "fi < length (fields' this)"
    by (simp_all add: plan_ok_def)
  have t: "tags this = take fi (tags this) @ tags this ! fi # drop (Suc fi) (tags this)"
    using assms(4) by (simp add: id_take_nth_drop)
  have "Get E (this, sv) = Get_loop E row this1 0 (tags this) sv"
    using assms(2,3) by (simp add: Get_read_row)
  also have "\<dots> = Get_loop E row this1 0
      (take fi (tags this) @ tags this ! fi # drop (Suc fi) (tags this)) sv"
    using t by simp
  also have "\<dots> = Get_loop E row this1 (0 + length (take fi (tags this)))
      (tags this ! fi # drop (Suc fi) (tags this)) sv1"
    by (rule Get_loop_append [OF assms(5)])
  finally have g: "Get E (this, sv) =
      Get_loop E row this1 fi (tags this ! fi # drop (Suc fi) (tags this)) sv1"
    using assms(4) by simp
  have f1: "fields' this1 = fields' this" "kinds this1 = kinds this"
    using assms(3) by simp_all
  have a: "Get E (this, sv) =
      Get_loop E row this1 (Suc fi) (drop (Suc fi) (tags this)) (sv1[fi := Int_val 0])"
    if k: "kinds this ! fi = int_k"
  proof -
    from plan_ok_primitive [OF assms(1,4)] k obtain kk
      where h: "fields' this ! fi = Field_Value fi kk" "switch_Kind kk = int_k" by auto
    from g len f1 assms(6,7) k h convert_int_empty [OF h(2), of E fi sv1]
    show ?thesis by simp
  qed
  have b: "Get E (this, sv) =
      (Returned False, this1\<lparr>Column := tags this ! fi + 1, Error := Some ErrSyntax\<rparr>,
       sv1[fi := Uint_val 0])"
    if k: "kinds this ! fi = uint_k"
  proof -
    from plan_ok_primitive [OF assms(1,4)] k obtain kk
      where h: "fields' this ! fi = Field_Value fi kk" "switch_Kind kk = uint_k" by auto
    from g len f1 assms(6,7) k h convert_uint_empty [OF h(2), of E fi sv1]
    show ?thesis by simp
  qed
  have c: "Get E (this, sv) =
      (Returned False, this1\<lparr>Column := tags this ! fi + 1, Error := Some ErrSyntax\<rparr>,
       sv1[fi := Float_val
         (if fields' this ! fi = Field_Value fi reflect_Float32 then float32 E 0 else 0)])"
    if k: "kinds this ! fi = float_k"
  proof -
    from plan_ok_primitive [OF assms(1,4)] k obtain kk
      where h: "fields' this ! fi = Field_Value fi kk" "switch_Kind kk = float_k" by auto
    from g len f1 assms(6,7) k h convert_float_empty [OF h(2), of E fi sv1]
    show ?thesis by simp
  qed
  from a b c show ?thesis by blast
qed

theorem Get_empty_text_witness:
  "plan_ok (Rec_session (rows [[[], ''2'', ''1.5'', ''x'']])) \<and>
   kinds (Rec_session (rows [[[], ''2'', ''1.5'', ''x'']])) ! 0 = int_k \<and>
   Get example_env (Rec_session (rows [[[], ''2'', ''1.5'', ''x'']]), Rec_value) =
     (Returned True, (Rec_session (rows []))\<lparr>Line := 2\<rparr>,
      [Int_val 0, Uint_val 2, Float_val (3 / 2), String_val ''kept'', Custom_val ''x'']) \<and>
   kinds (Rec_session (rows [[''1'', [], ''1.5'', ''x'']])) ! 1 = uint_k \<and>
   Get example_env (Rec_session (rows [[''1'', [], ''1.5'', ''x'']]), Rec_value) =
     (Returned False, (Rec_session (rows []))\<lparr>Line := 2, Column := 2, Error := Some ErrSyntax\<rparr>,
      [Int_val 1, Uint_val 0, Float_val 7, String_val ''kept'', Custom_val ''old'']) \<and>
   kinds (Rec_session (rows [[''1'', ''2'', [], ''x'']])) ! 2 = float_k \<and>
   Get example_env (Rec_session (rows [[''1'', ''2'', [], ''x'']]), Rec_value) =
     (Returned False, (Rec_session (rows []))\<lparr>Line := 2, Column := 3, Error := Some ErrSyntax\<rparr>,
      [Int_val 1, Uint_val 2, Float_val 0, String_val ''kept'', Custom_val ''old''])"
proof -
  let ?ra = "[[], ''2'', ''1.5'', ''x'']"
  let ?rb = "[''1'', [], ''1.5'', ''x'']"
  let ?rc = "[''1'', ''2'', [], ''x'']"
  have p: "plan_ok (Rec_session (rows rs))" for rs
    using NewReadIter_plan_ok [OF NewReadIter_Rec] .
  have r: "shd (Reader (Rec_session (rows [x]))) = (x, None)" for x
    by (simp add: Rec_session_def rows_simps)
  have ka: "kinds (Rec_session (rows [?ra])) ! 0 = int_k"
    and kb: "kinds (Rec_session (rows [?rb])) ! 1 = uint_k"
    and kc: "kinds (Rec_session (rows [?rc])) ! 2 = float_k"
    by (simp_all add: Rec_session_def)
  have a: "Get example_env (Rec_session (rows [?ra]), Rec_value) =
     (Returned True, (Rec_session (rows []))\<lparr>Line := 2\<rparr>,
      [Int_val 0, Uint_val 2, Float_val (3 / 2), String_val ''kept'', Custom_val ''x''])"
    using Get_empty_text [OF p r refl, where fi = 0 and E = example_env and sv = Rec_value
        and ?sv1.0 = Rec_value]
    by (simp add: Rec_session_def Rec_value_def rows_simps ParseInt_examples ParseUint_examples
        IntSize_def wrap_int_def ParseFloat_def example_env_def set_Value_def)
  have b: "Get example_env (Rec_session (rows [?rb]), Rec_value) =
     (Returned False, (Rec_session (rows []))\<lparr>Line := 2, Column := 2, Error := Some ErrSyntax\<rparr>,
      [Int_val 1, Uint_val 0, Float_val 7, String_val ''kept'', Custom_val ''old''])"
    using Get_empty_text [OF p r refl, where fi = 1 and E = example_env and sv = Rec_value
        and ?sv1.0 = "Rec_value[0 := Int_val 1]"]
    by (simp add: Rec_session_def Rec_value_def rows_simps ParseInt_examples ParseUint_examples
        IntSize_def wrap_int_def)
  have c: "Get example_env (Rec_session (rows [?rc]), Rec_value) =
     (Returned False, (Rec_session (rows []))\<lparr>Line := 2, Column := 3, Error := Some ErrSyntax\<rparr>,
      [Int_val 1, Uint_val 2, Float_val 0, String_val ''kept'', Custom_val ''old''])"
    using Get_empty_text [OF p r refl, where fi = 2 and E = example_env and sv = Rec_value
        and ?sv1.0 = "Rec_value[0 := Int_val 1, 1 := Uint_val 2]"]
    by (simp add: Rec_session_def Rec_value_def rows_simps ParseInt_examples ParseUint_examples
        IntSize_def wrap_int_def)
  from p ka kb kc a b c show ?thesis by blast
qed

subsection \<open>After a fault\<close>

text \<open>
  C3, as amended. The error of a session is never cleared: once it is set it stays set
  through every later call of \<open>Get\<close>, and a call that changes the error returns false.
  \<open>Get\<close> itself does not look at the error before it reads the next row.
\<close>

theorem Get_error_stays:
  "(Error this \<noteq> None \<longrightarrow> Error (fst (Get_calls E n (this, sv))) \<noteq> None) \<and>
   (Error (fst (snd (Get E (this, sv)))) \<noteq> Error this \<longrightarrow>
      fst (Get E (this, sv)) = Returned False)"
proof -
  have "Error (fst (Get_calls E n (this, sv))) \<noteq> None" if "Error this \<noteq> None"
  proof (induction n)
    case 0
    from that show ?case by (simp add: Get_calls_0)
  next
    case (Suc n)
    obtain it1 sv1 where s: "Get_calls E n (this, sv) = (it1, sv1)"
      by (cases "Get_calls E n (this, sv)") auto
    obtain st it2 sv2 where g: "Get E (it1, sv1) = (st, it2, sv2)"
      by (cases "Get E (it1, sv1)") auto
    from Get_this(7) [OF g] Suc s g show ?case
      by (auto simp: Get_calls_Suc)
  qed
  moreover have "fst (Get E (this, sv)) = Returned False"
    if "Error (fst (snd (Get E (this, sv)))) \<noteq> Error this"
  proof -
    obtain st it2 sv2 where g: "Get E (this, sv) = (st, it2, sv2)"
      by (cases "Get E (this, sv)") auto
    from Get_this(7) [OF g] that g show ?thesis by auto
  qed
  ultimately show ?thesis by blast
qed

theorem Get_error_stays_witness:
  "Error (fst (snd (Get example_env (AB_session (rows [[''x'', ''y''], [''5'', ''z'']]),
      [Int_val 3, String_val ''x''])))) = Some ErrSyntax \<and>
   fst (Get example_env (AB_session (rows [[''x'', ''y''], [''5'', ''z'']]),
      [Int_val 3, String_val ''x''])) = Returned False \<and>
   Error (fst (Get_calls example_env 2 (AB_session (rows [[''x'', ''y''], [''5'', ''z'']]),
      [Int_val 3, String_val ''x'']))) \<noteq> None"
proof -
  let ?s = "AB_session (rows [[''x'', ''y''], [''5'', ''z'']])"
  let ?v = "[Int_val 3, String_val ''x''] :: (real, string) field_value list"
  have e: "Error (fst (snd (Get example_env (?s, ?v)))) = Some ErrSyntax"
    by (simp add: Get_AB_x)
  have n: "Error ?s = None" by (simp add: AB_session_def)
  have c: "Get_calls example_env 2 (?s, ?v) = Get_calls example_env (Suc 0) (snd (Get example_env (?s, ?v)))"
    by (simp add: Get_calls_def numeral_2_eq_2 funpow_swap1)
  obtain it1 sv1 where s1: "snd (Get example_env (?s, ?v)) = (it1, sv1)"
    by (cases "snd (Get example_env (?s, ?v))") auto
  with e have "Error it1 \<noteq> None" by simp
  with Get_error_stays [of it1 example_env "Suc 0" sv1] c s1
  have "Error (fst (Get_calls example_env 2 (?s, ?v))) \<noteq> None" by simp
  with e n Get_error_stays [of ?s example_env 0 ?v] show ?thesis by simp
qed

text \<open>
  C3 as stated fails. The first row of this source has a bad integer: \<open>Get\<close> returns
  false and records the fault at column 1. The next call of \<open>Get\<close> on the same session
  reads the second row, writes it to the target and returns true.
\<close>

theorem Get_resumes_after_fault_counterexample:
  "NewReadIter EqualFold_ascii (rows [[''A'', ''B''], [''x'', ''y''], [''5'', ''z'']]) AB_struct =
     Returns (Inr (AB_session (rows [[''x'', ''y''], [''5'', ''z'']]))) \<and>
   Get example_env (AB_session (rows [[''x'', ''y''], [''5'', ''z'']]), [Int_val 3, String_val ''x'']) =
     (Returned False,
      (AB_session (rows []))\<lparr>Reader := rows [[''5'', ''z'']], Line := 2, Column := 1, Error := Some ErrSyntax\<rparr>,
      [Int_val 0, String_val ''x'']) \<and>
   Get example_env
     ((AB_session (rows []))\<lparr>Reader := rows [[''5'', ''z'']], Line := 2, Column := 1, Error := Some ErrSyntax\<rparr>,
      [Int_val 0, String_val ''x'']) =
     (Returned True,
      (AB_session (rows []))\<lparr>Line := 3, Column := 1, Error := Some ErrSyntax\<rparr>,
      [Int_val 5, String_val ''z''])"
  by (simp add: NewReadIter_AB Get_read_row rows_simps AB_session_def ParseInt_examples
      IntSize_def wrap_int_def)

subsection \<open>A custom type that rejects the text\<close>

text \<open>
  C4 does not hold of the code. \<open>Set\<close> of the example type rejects the empty text, and
  the row has the empty text in the column of the custom field: \<open>Get\<close> drops the result
  of \<open>Set\<close>, returns true and records neither an error nor a column.
\<close>

theorem Get_drops_Set_result:
  "Value_Set example_env [] ''old'' = (False, ''old'') \<and>
   NewReadIter EqualFold_ascii (rows [[''n'', ''u'', ''f'', ''c''], [''1'', ''2'', ''1.5'', []]]) Rec_struct =
     Returns (Inr (Rec_session (rows [[''1'', ''2'', ''1.5'', []]]))) \<and>
   Get example_env (Rec_session (rows [[''1'', ''2'', ''1.5'', []]]), Rec_value) =
     (Returned True, (Rec_session (rows []))\<lparr>Line := 2\<rparr>,
      [Int_val 1, Uint_val 2, Float_val (3 / 2), String_val ''kept'', Custom_val ''old'']) \<and>
   Error ((Rec_session (rows []))\<lparr>Line := 2\<rparr>) = None \<and>
   Column ((Rec_session (rows []))\<lparr>Line := 2\<rparr>) = 0"
  by (simp add: NewReadIter_Rec Get_read_row Rec_session_def Rec_value_def rows_simps
      ParseInt_examples ParseUint_examples IntSize_def wrap_int_def ParseFloat_def
      example_env_def set_Value_def)

subsection \<open>End of input and read faults\<close>

text \<open>
  C5. When the read gives \<open>io.EOF\<close>, \<open>Get\<close> returns false and leaves the error of the
  session as it was (absent, on a session without a fault) and the target untouched. When
  the read gives any other fault, \<open>Get\<close> returns false and the fault is the error of the
  session. On a session without a fault, after a call that returns false the error is
  absent exactly when the read gave \<open>io.EOF\<close>.
\<close>

theorem Get_end_of_input:
  "(shd (Reader this) = (row, Some EOF) \<longrightarrow>
      fst (Get E (this, sv)) = Returned False \<and>
      Error (fst (snd (Get E (this, sv)))) = Error this \<and>
      snd (snd (Get E (this, sv))) = sv) \<and>
   (shd (Reader this) = (row, Some e) \<and> e \<noteq> EOF \<longrightarrow>
      fst (Get E (this, sv)) = Returned False \<and>
      Error (fst (snd (Get E (this, sv)))) = Some e) \<and>
   (Error this = None \<and> fst (Get E (this, sv)) = Returned False \<longrightarrow>
      (Error (fst (snd (Get E (this, sv)))) = None \<longleftrightarrow> snd (shd (Reader this)) = Some EOF))"
proof -
  have a: "shd (Reader this) = (row, Some EOF) \<longrightarrow>
      fst (Get E (this, sv)) = Returned False \<and>
      Error (fst (snd (Get E (this, sv)))) = Error this \<and>
      snd (snd (Get E (this, sv))) = sv"
    by (simp add: Get_read_fault)
  have b: "shd (Reader this) = (row, Some e) \<and> e \<noteq> EOF \<longrightarrow>
      fst (Get E (this, sv)) = Returned False \<and>
      Error (fst (snd (Get E (this, sv)))) = Some e"
    by (simp add: Get_read_fault)
  have c: "Error (fst (snd (Get E (this, sv)))) = None \<longleftrightarrow> snd (shd (Reader this)) = Some EOF"
    if h: "Error this = None" and f: "fst (Get E (this, sv)) = Returned False"
  proof -
    obtain r err where s: "shd (Reader this) = (r, err)" by (cases "shd (Reader this)") auto
    show ?thesis
    proof (cases err)
      case None
      obtain st it sv' where g: "Get E (this, sv) = (st, it, sv')"
        by (cases "Get E (this, sv)") auto
      with s None have "Get_loop E r
          (this\<lparr>Reader := stl (Reader this), Line := wrap_int 64 (Line this + 1)\<rparr>)
          0 (tags this) sv = (st, it, sv')"
        by (simp add: Get_read_row)
      from Get_loop_this [OF this] f g have "Error it \<noteq> None" by auto
      with g s None show ?thesis by simp
    next
      case (Some e')
      with s h show ?thesis by (simp add: Get_read_fault)
    qed
  qed
  from a b c show ?thesis by blast
qed

theorem Get_end_of_input_witness:
  "shd (Reader (AB_session (rows []))) = ([], Some EOF) \<and>
   fst (Get example_env (AB_session (rows []), [Int_val 3, String_val ''x''])) = Returned False \<and>
   Error (fst (snd (Get example_env (AB_session (rows []), [Int_val 3, String_val ''x''])))) = None \<and>
   shd (Reader (AB_session (([], Some (ReadFault ''closed'')) ## rows []))) =
     ([], Some (ReadFault ''closed'')) \<and>
   Error (fst (snd (Get example_env (AB_session (([], Some (ReadFault ''closed'')) ## rows []),
     [Int_val 3, String_val ''x''])))) = Some (ReadFault ''closed'')"
proof -
  have h1: "shd (Reader (AB_session (rows []))) = ([], Some EOF)"
    by (simp add: AB_session_def rows_simps)
  have h2: "shd (Reader (AB_session (([], Some (ReadFault ''closed'')) ## rows []))) =
     ([], Some (ReadFault ''closed''))"
    by (simp add: AB_session_def)
  have h3: "Error (AB_session (rows [])) = None"
    by (simp add: AB_session_def)
  from h1 h2 h3
    Get_end_of_input [of "AB_session (rows [])" "[]" example_env "[Int_val 3, String_val ''x'']" EOF]
    Get_end_of_input [of "AB_session (([], Some (ReadFault ''closed'')) ## rows [])" "[]"
      example_env "[Int_val 3, String_val ''x'']" "ReadFault ''closed''"]
  show ?thesis by simp
qed

subsection \<open>The column of a field\<close>

text \<open>
  C6. The lookup key of a field is its \<open>field\<close> tag when the tag is not empty, otherwise
  its name with every underscore replaced by a space. If \<open>k\<close> is the first position of
  the header row whose name equals the key under \<open>strings.EqualFold\<close>, then the session
  binds the field to column \<open>k\<close>. The name of the field plays no part when there is a tag.
\<close>

theorem NewReadIter_column:
  assumes "NewReadIter eqf rdr st = Returns (Inr it)" and "i < length st"
    and "key = (if Tag_field (st ! i) \<noteq> [] then Tag_field (st ! i)
                else map (\<lambda>c. if c = CHR ''_'' then CHR '' '' else c) (Name (st ! i)))"
    and "k < length (Headers it)" and "eqf (Headers it ! k) key"
    and "\<forall>j < k. \<not> eqf (Headers it ! j) key"
  shows "Headers it = fst (shd rdr) \<and> lookup_tag (st ! i) = key \<and> tags it ! i = k \<and>
         kinds it ! i \<noteq> none_k"
proof -
  from assms(3) have key: "lookup_tag (st ! i) = key" by (simp add: lookup_tag_eq)
  from find_header_first [where eqf = eqf and hs = "Headers it" and k = k and tag = key
      and ?k0.0 = 0, OF assms(4,5,6)] key
  have f: "find_header eqf (Headers it) (lookup_tag (st ! i)) 0 = Some k" by simp
  with NewReadIter_entry [OF assms(1,2)]
  have t: "tags it ! i = k" and c: "classify (st ! i) i = Returns (Inr (kinds it ! i, fields' it ! i))"
    by simp_all
  from classify_Inr [OF c] have "kinds it ! i \<noteq> none_k"
    by (auto simp: switch_Kind_not_none)
  with key t NewReadIter_Inr(2) [OF assms(1)] show ?thesis by simp
qed

theorem NewReadIter_column_witness:
  "NewReadIter EqualFold_ascii (rows [[''Name'', ''Full Name'', ''last name'']])
     [plain_field ''Name'' ''full name'' reflect_String, plain_field ''Last_Name'' [] reflect_String] =
     Returns (Inr \<lparr>Reader = rows [], Headers = [''Name'', ''Full Name'', ''last name''], Error = None,
          Line = 1, Column = 0,
          fields' = [Field_Value 0 reflect_String, Field_Value 1 reflect_String],
          kinds = [string_k, string_k], tags = [1, 2]\<rparr>) \<and>
   EqualFold_ascii ''Name'' (Name (plain_field ''Name'' ''full name'' reflect_String)) \<and>
   lookup_tag (plain_field ''Name'' ''full name'' reflect_String) = ''full name'' \<and>
   lookup_tag (plain_field ''Last_Name'' [] reflect_String) = ''Last Name''"
proof -
  let ?st = "[plain_field ''Name'' ''full name'' reflect_String,
              plain_field ''Last_Name'' [] reflect_String]"
  let ?it = "\<lparr>Reader = rows [], Headers = [''Name'', ''Full Name'', ''last name''], Error = None,
          Line = 1, Column = 0,
          fields' = [Field_Value 0 reflect_String, Field_Value 1 reflect_String],
          kinds = [string_k, string_k], tags = [1, 2]\<rparr>"
  have n: "NewReadIter EqualFold_ascii (rows [[''Name'', ''Full Name'', ''last name'']]) ?st = Returns (Inr ?it)"
    by (simp add: NewReadIter_def rows_simps plain_field_def lookup_tag_def classify_def
        EqualFold_ascii_def lower_def)
  have e: "EqualFold_ascii ''Name'' (Name (plain_field ''Name'' ''full name'' reflect_String))"
    by (simp add: plain_field_def EqualFold_ascii_def)
  have a: "lookup_tag (?st ! 0) = ''full name''"
    using NewReadIter_column [where eqf = EqualFold_ascii and it = ?it and st = ?st and i = 0
        and k = 1 and key = "''full name''", OF n]
    by (simp add: plain_field_def EqualFold_ascii_def lower_def)
  have e0: "\<not> EqualFold_ascii ''Name'' ''Last Name''"
    and e1: "\<not> EqualFold_ascii ''Full Name'' ''Last Name''"
    and e2: "EqualFold_ascii ''last name'' ''Last Name''"
    by (simp_all add: EqualFold_ascii_def lower_def)
  have h: "\<forall>j < 2. \<not> EqualFold_ascii (Headers ?it ! j) ''Last Name''"
  proof (intro allI impI)
    fix j :: nat
    assume "j < 2"
    then have "j = 0 \<or> j = 1" by auto
    with e0 e1 show "\<not> EqualFold_ascii (Headers ?it ! j) ''Last Name''" by auto
  qed
  have b: "lookup_tag (?st ! 1) = ''Last Name''"
    using NewReadIter_column [where eqf = EqualFold_ascii and it = ?it and st = ?st and i = 1
        and k = 2 and key = "''Last Name''", OF n _ _ _ _ h] e2
    by (simp add: plain_field_def)
  from n e a b show ?thesis by simp
qed

subsection \<open>Fields that match no header\<close>

text \<open>
  C7. A field that no header matches causes no error: when \<open>NewReadIter\<close> fails, the read
  of the header row failed or a field that a header does match could not be classified;
  and when \<open>NewReadIter\<close> panics, it is the classification of a field that a header does
  match that panics.
  When \<open>NewReadIter\<close> succeeds, the fields the session converts are exactly the fields a
  header matches, in the order of their declaration; a field that no header matches is
  not among them, and no number of calls of \<open>Get\<close> changes its value in the target.
\<close>

theorem NewReadIter_unmatched_field:
  "(\<forall>e. NewReadIter eqf rdr st = Returns (Inl e) \<longrightarrow>
      snd (shd rdr) = Some e \<or>
      (\<exists>i < length st. (\<exists>h \<in> set (fst (shd rdr)). eqf h (lookup_tag (st ! i))) \<and>
         classify (st ! i) i = Returns (Inl e))) \<and>
   (\<forall>p. NewReadIter eqf rdr st = Panics p \<longrightarrow>
      (\<exists>i < length st. (\<exists>h \<in> set (fst (shd rdr)). eqf h (lookup_tag (st ! i))) \<and>
         classify (st ! i) i = Panics p)) \<and>
   (\<forall>it. NewReadIter eqf rdr st = Returns (Inr it) \<longrightarrow>
      bound_fields it =
        filter (\<lambda>i. \<exists>h \<in> set (Headers it). eqf h (lookup_tag (st ! i))) [0..<length st] \<and>
      (\<forall>j < length st. (\<forall>h \<in> set (Headers it). \<not> eqf h (lookup_tag (st ! j))) \<longrightarrow>
         j \<notin> set (bound_fields it) \<and>
         (\<forall>n sv. snd (Get_calls E n (it, sv)) ! j = sv ! j)))"
proof -
  have a: "snd (shd rdr) = Some e \<or>
      (\<exists>i < length st. (\<exists>h \<in> set (fst (shd rdr)). eqf h (lookup_tag (st ! i))) \<and>
         classify (st ! i) i = Returns (Inl e))" if f: "NewReadIter eqf rdr st = Returns (Inl e)" for e
  proof -
    obtain hs err where h: "shd rdr = (hs, err)" by (cases "shd rdr") auto
    show ?thesis
    proof (cases err)
      case (Some e')
      with f h show ?thesis by (simp add: NewReadIter_def)
    next
      case None
      let ?t = "\<lparr>Reader = stl rdr, Headers = hs, Error = None, Line = 1, Column = 0,
             fields' = replicate (length st) Zero_Value, kinds = replicate (length st) none_k,
             tags = replicate (length st) 0\<rparr>"
      from f h None have "NewReadIter_loop eqf st 0 ?t = Returns (Inl e)"
        by (simp add: NewReadIter_def Let_def)
      from NewReadIter_loop_Inl [OF this] h show ?thesis
        by (auto simp: find_header_None)
    qed
  qed
  have c: "\<exists>i < length st. (\<exists>h \<in> set (fst (shd rdr)). eqf h (lookup_tag (st ! i))) \<and>
         classify (st ! i) i = Panics p" if f: "NewReadIter eqf rdr st = Panics p" for p
  proof -
    obtain hs err where h: "shd rdr = (hs, err)" by (cases "shd rdr") auto
    show ?thesis
    proof (cases err)
      case (Some e')
      with f h show ?thesis by (simp add: NewReadIter_def)
    next
      case None
      let ?t = "\<lparr>Reader = stl rdr, Headers = hs, Error = None, Line = 1, Column = 0,
             fields' = replicate (length st) Zero_Value, kinds = replicate (length st) none_k,
             tags = replicate (length st) 0\<rparr>"
      from f h None have "NewReadIter_loop eqf st 0 ?t = Panics p"
        by (simp add: NewReadIter_def Let_def)
      from NewReadIter_loop_Panics [OF this] h show ?thesis
        by (auto simp: find_header_None)
    qed
  qed
  have b: "bound_fields it =
        filter (\<lambda>i. \<exists>h \<in> set (Headers it). eqf h (lookup_tag (st ! i))) [0..<length st] \<and>
      (\<forall>j < length st. (\<forall>h \<in> set (Headers it). \<not> eqf h (lookup_tag (st ! j))) \<longrightarrow>
         j \<notin> set (bound_fields it) \<and>
         (\<forall>n sv. snd (Get_calls E n (it, sv)) ! j = sv ! j))"
    if s: "NewReadIter eqf rdr st = Returns (Inr it)" for it
  proof -
    have k: "kinds it ! i \<noteq> none_k \<longleftrightarrow> (\<exists>h \<in> set (Headers it). eqf h (lookup_tag (st ! i)))"
      if "i < length st" for i
    proof (cases "find_header eqf (Headers it) (lookup_tag (st ! i)) 0")
      case None
      with NewReadIter_entry [OF s that] find_header_None [of eqf "Headers it" "lookup_tag (st ! i)" 0]
      show ?thesis by simp
    next
      case (Some c)
      with NewReadIter_entry [OF s that]
      have "classify (st ! i) i = Returns (Inr (kinds it ! i, fields' it ! i))" by simp
      from classify_Inr [OF this] have "kinds it ! i \<noteq> none_k"
        by (auto simp: switch_Kind_not_none)
      with Some find_header_None [of eqf "Headers it" "lookup_tag (st ! i)" 0]
      show ?thesis by auto
    qed
    have bf: "bound_fields it =
        filter (\<lambda>i. \<exists>h \<in> set (Headers it). eqf h (lookup_tag (st ! i))) [0..<length st]"
      unfolding bound_fields_def NewReadIter_Inr(8) [OF s]
      by (rule filter_cong) (simp_all add: k)
    have "j \<notin> set (bound_fields it) \<and> (\<forall>n sv. snd (Get_calls E n (it, sv)) ! j = sv ! j)"
      if "j < length st" and "\<forall>h \<in> set (Headers it). \<not> eqf h (lookup_tag (st ! j))" for j
    proof -
      from k [OF that(1)] that(2) have n: "kinds it ! j = none_k" by auto
      from bf that(2) have "j \<notin> set (bound_fields it)" by auto
      with Get_calls_untouched [OF NewReadIter_plan_ok [OF s] n, of E] show ?thesis by simp
    qed
    with bf show ?thesis by blast
  qed
  from a b c show ?thesis by blast
qed

theorem NewReadIter_unmatched_field_witness:
  "NewReadIter EqualFold_ascii (rows [[''n'', ''u'', ''f'', ''c''], [''1'', ''2'', ''1.5'', ''x''], []]) Rec_struct =
     Returns (Inr (Rec_session (rows [[''1'', ''2'', ''1.5'', ''x''], []]))) \<and>
   find_header EqualFold_ascii (Headers (Rec_session (rows [[''1'', ''2'', ''1.5'', ''x''], []])))
     (lookup_tag (Rec_struct ! 3)) 0 = None \<and>
   bound_fields (Rec_session (rows [[''1'', ''2'', ''1.5'', ''x''], []])) = [0, 1, 2, 4] \<and>
   snd (Get_calls example_env 2 (Rec_session (rows [[''1'', ''2'', ''1.5'', ''x''], []]), Rec_value)) ! 3 =
     String_val ''kept''"
proof -
  let ?s = "Rec_session (rows [[''1'', ''2'', ''1.5'', ''x''], []])"
  have n: "NewReadIter EqualFold_ascii
      (rows [[''n'', ''u'', ''f'', ''c''], [''1'', ''2'', ''1.5'', ''x''], []]) Rec_struct = Returns (Inr ?s)"
    by (rule NewReadIter_Rec)
  have u: "\<forall>h \<in> set (Headers ?s). \<not> EqualFold_ascii h (lookup_tag (Rec_struct ! 3))"
    by (simp add: Rec_session_def Rec_struct_def plain_field_def lookup_tag_def
        EqualFold_ascii_examples)
  have b: "bound_fields ?s = [0, 1, 2, 4]"
    by (simp add: bound_fields_def Rec_session_def upt_rec [of 0] upt_rec [of "Suc 0"]
        upt_rec [of 2] upt_rec [of 3] upt_rec [of 4] upt_rec [of 5])
  have j: "3 < length Rec_struct" by (simp add: Rec_struct_def)
  have v: "Rec_value ! 3 = String_val ''kept''" by (simp add: Rec_value_def)
  from NewReadIter_unmatched_field [of EqualFold_ascii
      "rows [[''n'', ''u'', ''f'', ''c''], [''1'', ''2'', ''1.5'', ''x''], []]" Rec_struct example_env]
    n u j
  have "snd (Get_calls example_env 2 (?s, Rec_value)) ! 3 = Rec_value ! 3"
    by blast
  with n u b v show ?thesis by (simp add: find_header_None)
qed

subsection \<open>A type that cannot be converted\<close>

text \<open>
  C8, as amended. The header row was read, a header matches the field \<open>i\<close>, the kind of
  its type is none of those the \<open>switch\<close> names (signed integer, unsigned integer, float,
  string) and neither the pointer to the field nor the field itself is a \<open>Value\<close>. Then
  \<open>NewReadIter\<close> produces no session. When every field up to the field \<open>i\<close> that a header
  matches is exported, it returns the error "cannot convert this type". A matched field
  that is not exported makes \<open>NewReadIter\<close> panic in reflection when the loop reaches it,
  and then no error is returned either.
\<close>

theorem NewReadIter_cannot_convert:
  assumes "snd (shd rdr) = None" and "i < length st"
    and "\<exists>h \<in> set (fst (shd rdr)). eqf h (lookup_tag (st ! i))"
    and "\<not> addr_is_Value (st ! i)" and "\<not> val_is_Value (st ! i)"
    and "switch_Kind (Type_Kind (st ! i)) \<notin> {int_k, uint_k, float_k, string_k}"
  shows "(\<forall>it. NewReadIter eqf rdr st \<noteq> Returns (Inr it)) \<and>
         ((\<forall>j \<le> i. (\<exists>h \<in> set (fst (shd rdr)). eqf h (lookup_tag (st ! j))) \<longrightarrow>
             IsExported (st ! j)) \<longrightarrow>
          NewReadIter eqf rdr st = Returns (Inl CannotConvert)) \<and>
         (NewReadIter eqf rdr st = Returns (Inl CannotConvert) \<or>
          NewReadIter eqf rdr st = Panics Reflect_panic)"
proof -
  obtain hs where h: "shd rdr = (hs, None)"
    using assms(1) by (cases "shd rdr") auto
  let ?t = "\<lparr>Reader = stl rdr, Headers = hs, Error = None, Line = 1, Column = 0,
             fields' = replicate (length st) Zero_Value, kinds = replicate (length st) none_k,
             tags = replicate (length st) 0\<rparr>"
  have n: "NewReadIter eqf rdr st = NewReadIter_loop eqf st 0 ?t"
    using h by (simp add: NewReadIter_def Let_def)
  from assms(6) have v: "switch_Kind (Type_Kind (st ! i)) = value_k"
    using switch_Kind_not_none [of "Type_Kind (st ! i)"]
    by (cases "switch_Kind (Type_Kind (st ! i))") auto
  from assms(3) h have f: "find_header eqf (Headers ?t) (lookup_tag (st ! i)) 0 \<noteq> None"
    by (simp add: find_header_None)
  have a: "NewReadIter eqf rdr st \<noteq> Returns (Inr it)" for it
  proof
    assume s: "NewReadIter eqf rdr st = Returns (Inr it)"
    from NewReadIter_Inr(2) [OF s] h have "Headers it = hs" by simp
    with f obtain k where "find_header eqf (Headers it) (lookup_tag (st ! i)) 0 = Some k"
      by auto
    with NewReadIter_entry [OF s assms(2)]
    have "classify (st ! i) i = Returns (Inr (kinds it ! i, fields' it ! i))" by simp
    with assms(4,5) v show False
      by (auto simp: classify_def Let_def split: if_splits)
  qed
  have b: "NewReadIter eqf rdr st = Returns (Inl CannotConvert)"
    if x: "\<forall>j \<le> i. (\<exists>h \<in> set (fst (shd rdr)). eqf h (lookup_tag (st ! j))) \<longrightarrow>
             IsExported (st ! j)"
  proof -
    from x assms(3) have "IsExported (st ! i)" by auto
    with assms(4,5) v have c: "classify (st ! i) (0 + i) = Returns (Inl CannotConvert)"
      by (simp add: classify_Inl)
    from x h have "\<forall>j' < i. find_header eqf (Headers ?t) (lookup_tag (st ! j')) 0 \<noteq> None \<longrightarrow>
        IsExported (st ! j')"
      by (auto simp: find_header_None)
    from NewReadIter_loop_fails [OF assms(2) f c this] n show ?thesis by simp
  qed
  have c: "NewReadIter eqf rdr st = Returns (Inl CannotConvert) \<or>
          NewReadIter eqf rdr st = Panics Reflect_panic"
  proof (cases "NewReadIter eqf rdr st")
    case (Panics p)
    with n have "NewReadIter_loop eqf st 0 ?t = Panics p" by simp
    from NewReadIter_loop_Panics [OF this] have "p = Reflect_panic"
      by (auto simp: classify_Panics)
    with Panics show ?thesis by simp
  next
    case (Returns y)
    show ?thesis
    proof (cases y)
      case (Inl e)
      with Returns n have "NewReadIter_loop eqf st 0 ?t = Returns (Inl e)" by simp
      from NewReadIter_loop_Inl [OF this] have "e = CannotConvert"
        by (auto simp: classify_Inl)
      with Returns Inl show ?thesis by simp
    next
      case (Inr it)
      with Returns a show ?thesis by simp
    qed
  qed
  from a b c show ?thesis by blast
qed

theorem NewReadIter_cannot_convert_witness:
  "snd (shd (rows [[''A'', ''B'']])) = None \<and>
   (\<exists>h \<in> set (fst (shd (rows [[''A'', ''B'']]))).
      EqualFold_ascii h (lookup_tag ([plain_field ''A'' [] reflect_Int, plain_field ''B'' [] reflect_Bool] ! 1))) \<and>
   switch_Kind reflect_Bool = value_k \<and>
   IsExported (plain_field ''A'' [] reflect_Int) \<and> IsExported (plain_field ''B'' [] reflect_Bool) \<and>
   NewReadIter EqualFold_ascii (rows [[''A'', ''B'']])
     [plain_field ''A'' [] reflect_Int, plain_field ''B'' [] reflect_Bool] = Returns (Inl CannotConvert)"
proof -
  let ?st = "[plain_field ''A'' [] reflect_Int, plain_field ''B'' [] reflect_Bool]"
  have a: "snd (shd (rows [[''A'', ''B'']])) = None" by (simp add: rows_simps)
  have b: "\<exists>h \<in> set (fst (shd (rows [[''A'', ''B'']]))). EqualFold_ascii h (lookup_tag (?st ! 1))"
    by (simp add: rows_simps plain_field_def lookup_tag_def EqualFold_ascii_examples)
  have c: "\<not> addr_is_Value (?st ! 1)" "\<not> val_is_Value (?st ! 1)"
    "switch_Kind (Type_Kind (?st ! 1)) \<notin> {int_k, uint_k, float_k, string_k}"
    by (simp_all add: plain_field_def)
  have l: "1 < length ?st" by simp
  have x: "\<forall>j \<le> 1. (\<exists>h \<in> set (fst (shd (rows [[''A'', ''B'']]))).
      EqualFold_ascii h (lookup_tag (?st ! j))) \<longrightarrow> IsExported (?st ! j)"
  proof (intro allI impI)
    fix j :: nat
    assume "j \<le> 1"
    then have "j = 0 \<or> j = 1" by auto
    then show "IsExported (?st ! j)" by (auto simp: plain_field_def)
  qed
  have e: "IsExported (plain_field ''A'' [] reflect_Int)" "IsExported (plain_field ''B'' [] reflect_Bool)"
    by (simp_all add: plain_field_def)
  from NewReadIter_cannot_convert [where eqf = EqualFold_ascii and i = 1 and st = ?st
      and rdr = "rows [[''A'', ''B'']]", OF a l b c] x
  have "NewReadIter EqualFold_ascii (rows [[''A'', ''B'']]) ?st = Returns (Inl CannotConvert)"
    by blast
  with a b e show ?thesis by simp
qed

text \<open>
  C8 as stated fails. In \<open>struct { b bool }\<close> over the header \<open>["b"]\<close> the field matches
  the header, its type is none of the kinds the \<open>switch\<close> names and nothing of it is a
  \<open>Value\<close>; the field is not exported, so \<open>NewReadIter\<close> panics in
  \<open>val.Addr().Interface()\<close> and returns no type error.
\<close>

theorem NewReadIter_unexported_counterexample:
  "EqualFold_ascii ''b'' (lookup_tag (unexported_field ''b'' [] reflect_Bool)) \<and>
   switch_Kind (Type_Kind (unexported_field ''b'' [] reflect_Bool)) = value_k \<and>
   NewReadIter EqualFold_ascii (rows [[''b'']]) [unexported_field ''b'' [] reflect_Bool] =
     Panics Reflect_panic \<and>
   NewReadIter EqualFold_ascii (rows [[''b'']]) [unexported_field ''b'' [] reflect_Bool] \<noteq>
     Returns (Inl CannotConvert)"
  by (simp add: NewReadIter_def rows_simps unexported_field_def lookup_tag_def classify_def
      EqualFold_ascii_def)

subsection \<open>The entry of a field that matched no header\<close>

text \<open>
  C9. A field that no header matches keeps the entry the fresh slices gave it: column
  index 0, kind \<open>none_k\<close>, the zero \<open>Value\<close>. The loop of \<open>Get\<close> indexes the row before it
  looks at the kind, so at this entry an empty row panics with an index out of range; and
  whenever the session reads an empty row, \<open>Get\<close> panics instead of returning.
\<close>

theorem Get_empty_row_panics:
  assumes "NewReadIter eqf rdr st = Returns (Inr it)" and "j < length st"
    and "find_header eqf (Headers it) (lookup_tag (st ! j)) 0 = None"
  shows "j < length (tags it) \<and> tags it ! j = 0 \<and> kinds it ! j = none_k \<and>
         fields' it ! j = Zero_Value \<and>
         (\<forall>this cs sv. Get_loop E [] this j (tags it ! j # cs) sv =
            (Panicked Index_out_of_range, this, sv)) \<and>
         (\<forall>n sv. shd (Reader (fst (Get_calls E n (it, sv)))) = ([], None) \<longrightarrow>
            fst (Get E (Get_calls E n (it, sv))) = Panicked Index_out_of_range)"
proof -
  from NewReadIter_entry [OF assms(1,2)] assms(3)
  have e: "tags it ! j = 0" "kinds it ! j = none_k" "fields' it ! j = Zero_Value" by simp_all
  from NewReadIter_Inr(8) [OF assms(1)] assms(2) have l: "j < length (tags it)" by simp
  have "fst (Get E (Get_calls E n (it, sv))) = Panicked Index_out_of_range"
    if r: "shd (Reader (fst (Get_calls E n (it, sv)))) = ([], None)" for n sv
  proof -
    obtain it1 sv1 where s: "Get_calls E n (it, sv) = (it1, sv1)"
      by (cases "Get_calls E n (it, sv)") auto
    from Get_calls_plan [of E n it sv] s have "tags it1 = tags it" by simp
    with l have "tags it1 \<noteq> []" by auto
    then obtain c cs where "tags it1 = c # cs" by (cases "tags it1") auto
    with r s show ?thesis by (simp add: Get_read_row)
  qed
  with e l show ?thesis by simp
qed

theorem Get_empty_row_panics_witness:
  "NewReadIter EqualFold_ascii (rows [[''n'', ''u'', ''f'', ''c''], []]) Rec_struct =
     Returns (Inr (Rec_session (rows [[]]))) \<and>
   find_header EqualFold_ascii (Headers (Rec_session (rows [[]]))) (lookup_tag (Rec_struct ! 3)) 0 = None \<and>
   tags (Rec_session (rows [[]])) ! 3 = 0 \<and> kinds (Rec_session (rows [[]])) ! 3 = none_k \<and>
   fst (Get example_env (Rec_session (rows [[]]), Rec_value)) = Panicked Index_out_of_range"
proof -
  let ?s = "Rec_session (rows [[]])"
  have n: "NewReadIter EqualFold_ascii (rows [[''n'', ''u'', ''f'', ''c''], []]) Rec_struct = Returns (Inr ?s)"
    by (rule NewReadIter_Rec)
  have j: "3 < length Rec_struct" by (simp add: Rec_struct_def)
  have f: "find_header EqualFold_ascii (Headers ?s) (lookup_tag (Rec_struct ! 3)) 0 = None"
    by (simp add: Rec_session_def Rec_struct_def plain_field_def lookup_tag_def
        EqualFold_ascii_examples)
  have r: "shd (Reader (fst (Get_calls example_env 0 (?s, Rec_value)))) = ([], None)"
    by (simp add: Get_calls_0 Rec_session_def rows_simps)
  from Get_empty_row_panics [OF n j f, of example_env] r
  have "tags ?s ! 3 = 0 \<and> kinds ?s ! 3 = none_k \<and>
    fst (Get example_env (Get_calls example_env 0 (?s, Rec_value))) = Panicked Index_out_of_range"
    by blast
  with n f show ?thesis by (simp add: Get_calls_0)
qed

subsection \<open>StrToInt64 drops the error of the parser\<close>

text \<open>
  C10, as amended. \<open>StrToInt64\<close> returns an integer and nothing else, so no failure of
  the parser reaches the caller. When \<open>ParseInt\<close> reports a syntax error the result is 0,
  the result for \<open>"0"\<close>. When \<open>ParseInt\<close> reports a range error the result is not 0 but
  the limit of the sign: 9223372036854775807, or -9223372036854775808 after a minus
  sign. \<open>ParseInt\<close> reports no other error.
\<close>

theorem StrToInt64_drops_error:
  "(snd (ParseInt s) = Some ErrSyntax \<longrightarrow> StrToInt64 s = 0 \<and> StrToInt64 s = StrToInt64 ''0'') \<and>
   (snd (ParseInt s) = Some ErrRange \<longrightarrow>
      StrToInt64 s = (if hd s = CHR ''-'' then - (2 ^ 63) else 2 ^ 63 - 1)) \<and>
   (snd (ParseInt s) = None \<or> snd (ParseInt s) = Some ErrSyntax \<or> snd (ParseInt s) = Some ErrRange)"
proof -
  have zero: "StrToInt64 ''0'' = 0"
    by (simp add: StrToInt64_def ParseInt_def ParseUint_def digit_of_def lower_def
        maxUint64_def IntSize_def wrap_int_def)
  obtain v err where p: "ParseInt s = (v, err)"
    by (cases "ParseInt s") auto
  show ?thesis
  proof (cases err)
    case None
    with p show ?thesis by simp
  next
    case (Some e)
    with p ParseInt_err [of s v e] zero show ?thesis
      by (auto simp: StrToInt64_def)
  qed
qed

theorem StrToInt64_drops_error_witness:
  "snd (ParseInt ''12x'') = Some ErrSyntax \<and> StrToInt64 ''12x'' = 0 \<and>
   snd (ParseInt ''-9223372036854775809'') = Some ErrRange \<and>
   StrToInt64 ''-9223372036854775809'' = - (2 ^ 63)"
proof -
  have a: "snd (ParseInt ''12x'') = Some ErrSyntax"
    by (simp add: ParseInt_def ParseUint_def digit_of_def lower_def maxUint64_def IntSize_def)
  have b: "snd (ParseInt ''-9223372036854775809'') = Some ErrRange"
    by (simp add: ParseInt_def ParseUint_def digit_of_def lower_def maxUint64_def IntSize_def)
  from a b StrToInt64_drops_error [of "''12x''"]
    StrToInt64_drops_error [of "''-9223372036854775809''"]
  show ?thesis by simp
qed

text \<open>
  C10 as stated fails: these two strings are not base-10 integers that \<open>ParseInt\<close>
  accepts (the first is not even made of digits), and \<open>StrToInt64\<close> returns
  9223372036854775807 for both, not 0. The parser stops at the digit that overflows,
  before it looks at the rest of the string.
\<close>

theorem StrToInt64_not_zero_counterexample:
  "snd (ParseInt ''99999999999999999999x'') = Some ErrRange \<and>
   StrToInt64 ''99999999999999999999x'' = 9223372036854775807 \<and>
   snd (ParseInt ''9223372036854775808'') = Some ErrRange \<and>
   StrToInt64 ''9223372036854775808'' = 9223372036854775807 \<and>
   StrToInt64 ''0'' = 0"
  by (simp add: StrToInt64_def ParseInt_def ParseUint_def digit_of_def lower_def
      maxUint64_def IntSize_def wrap_int_def)

end
